theory Spec2Isabelle
  imports Complex_Main
begin

section \<open>JavaScript values used by the wheel picker\<close>

text \<open>
  The picker of \<^verbatim>\<open>wheel-picker.ts\<close> is embedded as pure functions on an explicit state.
  JavaScript numbers that hold pixel offsets, pointer coordinates and velocities are
  modelled as reals (rounding error of IEEE doubles is outside the model); numbers that
  hold indices, calendar fields and timestamps are integers. A column value is a number
  (day, year), a string (month name, zero-padded hour or minute) or \<^verbatim>\<open>undefined\<close>, which
  is what an array read outside the array yields.
\<close>

datatype jsval = Num int | Str string | Undefined

text \<open>\<^verbatim>\<open>xs[i]\<close>: reading outside the array does not throw, it yields \<^verbatim>\<open>undefined\<close>.\<close>

definition js_nth :: "jsval list \<Rightarrow> int \<Rightarrow> jsval" where
  "js_nth xs i = (if 0 \<le> i \<and> i < int (length xs) then xs ! nat i else Undefined)"

text \<open>\<^verbatim>\<open>xs.indexOf(v)\<close>: the first position holding \<open>v\<close> (strict equality), or \<open>-1\<close>.\<close>

fun indexOf :: "jsval list \<Rightarrow> jsval \<Rightarrow> int" where
  "indexOf [] v = -1"
| "indexOf (x # xs) v =
     (if x = v then 0 else (let i = indexOf xs v in if i < 0 then -1 else i + 1))"

text \<open>\<^verbatim>\<open>Math.round\<close> rounds to the nearest integer, halves upwards.\<close>

definition Math_round :: "real \<Rightarrow> int" where
  "Math_round x = \<lfloor>x + 1 / 2\<rfloor>"

text \<open>\<^verbatim>\<open>String(i).padStart(2, '0')\<close> for a non-negative integer \<open>i\<close>.\<close>

definition digit_char :: "nat \<Rightarrow> char" where
  "digit_char n = ''0123456789'' ! (n mod 10)"

fun String_nat :: "nat \<Rightarrow> string" where
  "String_nat n = (if n < 10 then [digit_char n] else String_nat (n div 10) @ [digit_char n])"

declare String_nat.simps [simp del]

definition padStart2 :: "string \<Rightarrow> string" where
  "padStart2 s = replicate (2 - length s) CHR ''0'' @ s"

definition pad2 :: "int \<Rightarrow> string" where
  "pad2 i = padStart2 (String_nat (nat i))"

text \<open>
  \<^verbatim>\<open>parseInt(v)\<close> on a column value: the leading decimal digits of the string, \<^verbatim>\<open>NaN\<close>
  (here \<open>None\<close>) when there are none. Signs, leading blanks and the \<^verbatim>\<open>0x\<close> prefix do not
  occur in the strings the picker builds and are not modelled. An integer is first turned
  into its decimal string and parses to itself; \<^verbatim>\<open>parseInt(undefined)\<close> is \<^verbatim>\<open>NaN\<close>.
\<close>

definition is_digit :: "char \<Rightarrow> bool" where
  "is_digit c = (c \<in> set ''0123456789'')"

definition digit_val :: "char \<Rightarrow> int" where
  "digit_val c = int (length (takeWhile (\<lambda>d. d \<noteq> c) ''0123456789''))"

definition parse_digits :: "string \<Rightarrow> int" where
  "parse_digits s = foldl (\<lambda>acc c. 10 * acc + digit_val c) 0 s"

definition parseInt :: "jsval \<Rightarrow> int option" where
  "parseInt v =
     (case v of
        Num n \<Rightarrow> Some n
      | Str s \<Rightarrow> (let ds = takeWhile is_digit s in if ds = [] then None else Some (parse_digits ds))
      | Undefined \<Rightarrow> None)"

text \<open>
  The numeric value of a column entry handed to the \<^verbatim>\<open>Date\<close> constructor (the source
  casts with \<^verbatim>\<open>as number\<close>, which does nothing at run time): a number is itself, a string
  of decimal digits is its value (the empty string is 0), \<^verbatim>\<open>undefined\<close> is \<^verbatim>\<open>NaN\<close>. Other
  numeric spellings of a string (blanks, sign, fraction, exponent) are not modelled and
  count as \<^verbatim>\<open>NaN\<close>; the day and year columns hold numbers.
\<close>

definition to_number :: "jsval \<Rightarrow> int option" where
  "to_number v =
     (case v of
        Num n \<Rightarrow> Some n
      | Str s \<Rightarrow> (if list_all is_digit s then Some (parse_digits s) else None)
      | Undefined \<Rightarrow> None)"

section \<open>The Date built-in\<close>

text \<open>
  A valid \<^verbatim>\<open>Date\<close> is the record of what its local-time getters return
  (\<^verbatim>\<open>getFullYear\<close>, \<^verbatim>\<open>getMonth\<close> from 0, \<^verbatim>\<open>getDate\<close>, \<^verbatim>\<open>getHours\<close>, ...);
  an invalid Date (time value \<^verbatim>\<open>NaN\<close>) is \<open>None\<close>. The local time zone is taken to have
  no daylight-saving transitions, and the range limit of the time value is not modelled.
  A record whose fields lie outside their calendar ranges stands for no Date.
\<close>

record date_time =
  d_year :: int
  d_month :: int
  d_date :: int
  d_hours :: int
  d_minutes :: int
  d_seconds :: int
  d_ms :: int

definition leap_year :: "int \<Rightarrow> bool" where
  "leap_year y = (y mod 4 = 0 \<and> (y mod 100 \<noteq> 0 \<or> y mod 400 = 0))"

definition month_len :: "int \<Rightarrow> int \<Rightarrow> int" where
  "month_len y m =
     (if m = 1 then (if leap_year y then 29 else 28)
      else if m = 3 \<or> m = 5 \<or> m = 8 \<or> m = 10 then 30 else 31)"

definition prev_month :: "int \<times> int \<Rightarrow> int \<times> int" where
  "prev_month ym = (if snd ym \<le> 0 then (fst ym - 1, 11) else (fst ym, snd ym - 1))"

definition next_month :: "int \<times> int \<Rightarrow> int \<times> int" where
  "next_month ym = (if 11 \<le> snd ym then (fst ym + 1, 0) else (fst ym, snd ym + 1))"

text \<open>
  The constructor accepts a day of the month outside the month and carries it into the
  neighbouring months: day 0 is the last day of the month before, day 31 of February is
  the 3rd of March (the 2nd in a leap year).
\<close>

function carry_day :: "int \<times> int \<Rightarrow> int \<Rightarrow> (int \<times> int) \<times> int" where
  "carry_day ym d =
     (if d < 1 then
        carry_day (prev_month ym) (d + month_len (fst (prev_month ym)) (snd (prev_month ym)))
      else if month_len (fst ym) (snd ym) < d then
        carry_day (next_month ym) (d - month_len (fst ym) (snd ym))
      else (ym, d))"
  by pat_completeness auto
termination
proof (relation "measure (\<lambda>(ym, d). if d < 1 then nat (32 - d) else nat d)")
  show "wf (measure (\<lambda>(ym, d). if d < 1 then nat (32 - d) else nat d))" by simp
next
  fix ym :: "int \<times> int" and d :: int
  assume "d < 1"
  moreover have "28 \<le> month_len (fst (prev_month ym)) (snd (prev_month ym))"
    and "month_len (fst (prev_month ym)) (snd (prev_month ym)) \<le> 31"
    by (simp_all add: month_len_def)
  ultimately show "((prev_month ym, d + month_len (fst (prev_month ym)) (snd (prev_month ym))), (ym, d))
        \<in> measure (\<lambda>(ym, d). if d < 1 then nat (32 - d) else nat d)"
    by (auto simp: nat_less_iff)
next
  fix ym :: "int \<times> int" and d :: int
  assume "\<not> d < 1" "month_len (fst ym) (snd ym) < d"
  moreover have "28 \<le> month_len (fst ym) (snd ym)"
    by (simp add: month_len_def)
  ultimately show "((next_month ym, d - month_len (fst ym) (snd ym)), (ym, d))
        \<in> measure (\<lambda>(ym, d). if d < 1 then nat (32 - d) else nat d)"
    by auto
qed

declare carry_day.simps [simp del]

text \<open>
  \<^verbatim>\<open>new Date(y, m, d, h, mi)\<close> on finite arguments: a year from 0 to 99 means 1900 + year,
  and every field out of its range carries into the next larger one.
\<close>

definition new_Date :: "int \<Rightarrow> int \<Rightarrow> int \<Rightarrow> int \<Rightarrow> int \<Rightarrow> date_time" where
  "new_Date y m d h mi =
     (let y0 = (if 0 \<le> y \<and> y \<le> 99 then 1900 + y else y);
          h1 = h + mi div 60;
          r = carry_day (y0 + m div 12, m mod 12) (d + h1 div 24)
      in \<lparr>d_year = fst (fst r), d_month = snd (fst r), d_date = snd r,
          d_hours = h1 mod 24, d_minutes = mi mod 60, d_seconds = 0, d_ms = 0\<rparr>)"

text \<open>The constructor on arguments that may be \<^verbatim>\<open>NaN\<close>: one \<^verbatim>\<open>NaN\<close> makes the Date invalid.\<close>

definition new_Date_js ::
  "int option \<Rightarrow> int option \<Rightarrow> int option \<Rightarrow> int option \<Rightarrow> int option \<Rightarrow> date_time option" where
  "new_Date_js y m d h mi =
     (case (y, m, d, h, mi) of
        (Some y', Some m', Some d', Some h', Some mi') \<Rightarrow> Some (new_Date y' m' d' h' mi')
      | _ \<Rightarrow> None)"

text \<open>\<^verbatim>\<open>date.setHours(h, mi, 0, 0)\<close> on a valid Date; no year adjustment happens here.\<close>

definition setHours :: "date_time \<Rightarrow> int option \<Rightarrow> int option \<Rightarrow> date_time option" where
  "setHours now h mi =
     (case (h, mi) of
        (Some h', Some mi') \<Rightarrow>
          (let h1 = h' + mi' div 60;
               r = carry_day (d_year now, d_month now) (d_date now + h1 div 24)
           in Some \<lparr>d_year = fst (fst r), d_month = snd (fst r), d_date = snd r,
                   d_hours = h1 mod 24, d_minutes = mi' mod 60, d_seconds = 0, d_ms = 0\<rparr>)
      | _ \<Rightarrow> None)"

text \<open>
  \<^verbatim>\<open>new Date(year, monthIndex + 1, 0).getDate()\<close>, the source's way to count the days of a
  month; \<open>None\<close> is \<^verbatim>\<open>NaN\<close>.
\<close>

definition daysInMonth :: "jsval \<Rightarrow> int \<Rightarrow> int option" where
  "daysInMonth year monthIndex =
     map_option d_date (new_Date_js (to_number year) (Some (monthIndex + 1)) (Some 0) (Some 0) (Some 0))"

section \<open>Picker state\<close>

datatype format = FDate | FDateTime | FTime

text \<open>
  What the source can run into: the constructor's own throw, a property read on a column
  that does not exist (\<^verbatim>\<open>this.columns[i]\<close> is \<^verbatim>\<open>undefined\<close>), and the point where the
  source stores \<^verbatim>\<open>NaN\<close> as a selected index (an invalid year in \<^verbatim>\<open>updateColumns\<close>), which a
  state with integer indices does not follow further.
\<close>

datatype halt = ContainerNotFound | TypeError | NaNIndex

record WheelPickerOptions =
  container :: bool
  initialDate :: date_time
  minDate :: date_time
  maxDate :: date_time
  format :: format
  locale_month :: "nat \<Rightarrow> string"

text \<open>
  \<open>container\<close> says whether the container element resolves; \<open>locale_month\<close> stands for the
  platform's month-name formatting under the configured locale, \<open>locale_month i\<close> being the long
  name of month \<open>i\<close>. The options are taken after the constructor's defaults are filled in.
\<close>

record WheelColumn =
  col_values :: "jsval list"
  selectedIndex :: int
  scrollTop :: real
  isScrolling :: bool

text \<open>The variables closed over by the event handlers of one column.\<close>

record tracker =
  startY :: real
  startScrollTop :: real
  momentumId :: "nat option"
  lastY :: real
  lastTime :: int
  velocity :: real

text \<open>
  One call of \<^verbatim>\<open>animateToNearest\<close>: the closure \<^verbatim>\<open>animate\<close> with the column index, the
  nearest index and the nearest offset it has captured.
\<close>

record animation =
  anim_col :: nat
  nearestIndex :: int
  nearestScrollTop :: real

text \<open>
  The picker: its columns, the stored Date, the handler variables of every column, the
  callbacks waiting for the next animation frame (with the ids \<^verbatim>\<open>requestAnimationFrame\<close>
  returned for them) and the Dates handed to \<^verbatim>\<open>onChange\<close> so far, oldest first.
\<close>

record WheelPicker =
  fmt :: format
  columns :: "WheelColumn list"
  currentDate :: "date_time option"
  trackers :: "tracker list"
  frames :: "(nat \<times> animation) list"
  next_frame_id :: nat
  fired :: "date_time option list"

definition itemHeight :: real where
  "itemHeight = 40"

definition visibleItems :: real where
  "visibleItems = 5"

section \<open>Rendering one item\<close>

record item_style =
  translateY :: real
  scale :: real
  opacity :: real
  selected :: bool

text \<open>
  The body of the loop in \<^verbatim>\<open>updateColumnTransform\<close>, with the two private fields it reads
  as parameters.
\<close>

definition item_distance :: "real \<Rightarrow> real \<Rightarrow> nat \<Rightarrow> real \<Rightarrow> real" where
  "item_distance ih vis index scroll =
     \<bar>(real index * ih - scroll) - (ih * (vis - 1) / 2)\<bar>"

definition project :: "real \<Rightarrow> real \<Rightarrow> nat \<Rightarrow> real \<Rightarrow> item_style" where
  "project ih vis index scroll =
     (let offset = real index * ih - scroll;
          centerOffset = offset - (ih * (vis - 1) / 2);
          distance = \<bar>centerOffset\<bar>
      in \<lparr>translateY = offset,
          scale = max (7 / 10) (1 - distance / (ih * 3)),
          opacity = max (3 / 10) (1 - distance / (ih * (5 / 2))),
          selected = (distance < ih / 2)\<rparr>)"

definition updateColumnTransform :: "WheelPicker \<Rightarrow> nat \<Rightarrow> item_style list" where
  "updateColumnTransform p columnIndex =
     (let column = columns p ! columnIndex
      in map (\<lambda>index. project itemHeight visibleItems index (scrollTop column))
             [0 ..< length (col_values column)])"

section \<open>Construction\<close>

definition getColumnConfigs :: "WheelPickerOptions \<Rightarrow> date_time \<Rightarrow> (jsval list \<times> jsval) list" where
  "getColumnConfigs opts cur =
     (let months = map (\<lambda>i. Str (locale_month opts i)) [0 ..< 12];
          days = (case daysInMonth (Num (d_year cur)) (d_month cur) of
                    None \<Rightarrow> [] | Some n \<Rightarrow> map (\<lambda>i. Num (int i + 1)) [0 ..< nat n]);
          years = map (\<lambda>i. Num (d_year (minDate opts) + int i))
                      [0 ..< nat (d_year (maxDate opts) - d_year (minDate opts) + 1)];
          hours = map (\<lambda>i. Str (pad2 (int i))) [0 ..< 24];
          minutes = map (\<lambda>i. Str (pad2 (int i))) [0 ..< 60]
      in (if format opts = FDate \<or> format opts = FDateTime
          then [(months, js_nth months (d_month cur)), (days, Num (d_date cur)),
                (years, Num (d_year cur))]
          else [])
         @
         (if format opts = FDateTime \<or> format opts = FTime
          then [(hours, Str (pad2 (d_hours cur))), (minutes, Str (pad2 (d_minutes cur)))]
          else []))"

definition new_column :: "jsval list \<times> jsval \<Rightarrow> WheelColumn" where
  "new_column config =
     (let i = indexOf (fst config) (snd config)
      in \<lparr>col_values = fst config, selectedIndex = (if 0 \<le> i then i else 0),
          scrollTop = 0, isScrolling = False\<rparr>)"

definition new_tracker :: tracker where
  "new_tracker = \<lparr>startY = 0, startScrollTop = 0, momentumId = None, lastY = 0,
                  lastTime = 0, velocity = 0\<rparr>"

definition scrollToSelected :: "WheelPicker \<Rightarrow> WheelPicker" where
  "scrollToSelected p =
     p\<lparr>columns := map (\<lambda>column. column\<lparr>scrollTop := of_int (selectedIndex column) * itemHeight\<rparr>)
                       (columns p)\<rparr>"

definition render :: "WheelPickerOptions \<Rightarrow> WheelPicker" where
  "render opts =
     (let columnConfigs = getColumnConfigs opts (initialDate opts)
      in scrollToSelected
           \<lparr>fmt = format opts,
            columns = map new_column columnConfigs,
            currentDate = Some (initialDate opts),
            trackers = map (\<lambda>_. new_tracker) columnConfigs,
            frames = [],
            next_frame_id = 0,
            fired = []\<rparr>)"

section \<open>Keeping the day column in step with month and year\<close>

definition updateColumns :: "WheelPicker \<Rightarrow> halt + WheelPicker" where
  "updateColumns p =
     (if fmt p = FDate \<or> fmt p = FDateTime then
        (if length (columns p) < 3 then Inl TypeError
         else
           (let monthIndex = selectedIndex (columns p ! 0);
                year = js_nth (col_values (columns p ! 2)) (selectedIndex (columns p ! 2));
                dayColumn = columns p ! 1;
                currentDayValue = js_nth (col_values dayColumn) (selectedIndex dayColumn)
            in case daysInMonth year monthIndex of
                 None \<Rightarrow> Inl NaNIndex
               | Some ndays \<Rightarrow>
                   (if int (length (col_values dayColumn)) \<noteq> ndays then
                      (let newDays = map (\<lambda>i. Num (int i + 1)) [0 ..< nat ndays];
                           sel = (case currentDayValue of
                                    Num v \<Rightarrow> (if v \<noteq> 0 \<and> v \<le> ndays then v - 1 else ndays - 1)
                                  | _ \<Rightarrow> ndays - 1)
                       in Inr (p\<lparr>columns := (columns p)
                                  [1 := dayColumn\<lparr>col_values := newDays, selectedIndex := sel,
                                                   scrollTop := of_int sel * itemHeight\<rparr>]\<rparr>))
                    else Inr p)))
      else Inr p)"

text \<open>
  The first half of \<^verbatim>\<open>onDateChange\<close>: the Date it builds from the columns; \<open>now\<close> is what
  \<^verbatim>\<open>new Date()\<close> returns.
\<close>

definition compose :: "WheelPicker \<Rightarrow> date_time \<Rightarrow> halt + date_time option" where
  "compose p now =
     (let sel = (\<lambda>i. js_nth (col_values (columns p ! i)) (selectedIndex (columns p ! i)))
      in if fmt p = FDate \<or> fmt p = FDateTime then
           (if length (columns p) < 3 then Inl TypeError
            else
              (let monthIndex = selectedIndex (columns p ! 0);
                   day = sel 1;
                   year = sel 2
               in if fmt p = FDateTime then
                    (if length (columns p) < 5 then Inl TypeError
                     else Inr (new_Date_js (to_number year) (Some monthIndex) (to_number day)
                                 (parseInt (sel 3)) (parseInt (sel 4))))
                  else Inr (new_Date_js (to_number year) (Some monthIndex) (to_number day)
                              (Some 0) (Some 0))))
         else
           (if length (columns p) < 2 then Inl TypeError
            else Inr (setHours now (parseInt (sel 0)) (parseInt (sel 1)))))"

definition onDateChange :: "WheelPicker \<Rightarrow> date_time \<Rightarrow> halt + WheelPicker" where
  "onDateChange p now =
     (case compose p now of
        Inl e \<Rightarrow> Inl e
      | Inr newDate \<Rightarrow>
          (case updateColumns (p\<lparr>currentDate := newDate\<rparr>) of
             Inl e \<Rightarrow> Inl e
           | Inr p' \<Rightarrow> Inr (p'\<lparr>fired := fired p' @ [newDate]\<rparr>)))"

definition new_WheelPicker :: "WheelPickerOptions \<Rightarrow> halt + WheelPicker" where
  "new_WheelPicker opts =
     (if \<not> container opts then Inl ContainerNotFound else updateColumns (render opts))"

section \<open>Momentum animation\<close>

text \<open>
  \<^verbatim>\<open>requestAnimationFrame(animate)\<close> queues the closure for the next frame and returns an
  id, which the source drops; \<^verbatim>\<open>cancelAnimationFrame(id)\<close> removes the callback queued
  under that id.
\<close>

definition requestAnimationFrame :: "animation \<Rightarrow> WheelPicker \<Rightarrow> WheelPicker" where
  "requestAnimationFrame a p =
     p\<lparr>frames := frames p @ [(next_frame_id p, a)], next_frame_id := Suc (next_frame_id p)\<rparr>"

definition cancelAnimationFrame :: "nat \<Rightarrow> WheelPicker \<Rightarrow> WheelPicker" where
  "cancelAnimationFrame i p = p\<lparr>frames := filter (\<lambda>cb. fst cb \<noteq> i) (frames p)\<rparr>"

text \<open>
  What one run of the closure \<^verbatim>\<open>animate\<close> does to its column: the terminal step snaps
  and commits, any other step moves the offset by 0.15 of the remaining difference and
  asks for another frame.
\<close>

datatype anim_step = Settled WheelColumn | Scheduled WheelColumn

definition anim_diff :: "animation \<Rightarrow> WheelColumn \<Rightarrow> real" where
  "anim_diff a column = nearestScrollTop a - scrollTop column"

definition animate_col :: "animation \<Rightarrow> WheelColumn \<Rightarrow> anim_step" where
  "animate_col a column =
     (let diff = nearestScrollTop a - scrollTop column
      in if \<bar>diff\<bar> < 1 / 2
         then Settled (column\<lparr>scrollTop := nearestScrollTop a, selectedIndex := nearestIndex a\<rparr>)
         else Scheduled (column\<lparr>scrollTop := scrollTop column + diff * (15 / 100)\<rparr>))"

definition animate :: "WheelPicker \<Rightarrow> animation \<Rightarrow> date_time \<Rightarrow> halt + WheelPicker" where
  "animate p a now =
     (if length (columns p) \<le> anim_col a then Inl TypeError
      else
        (case animate_col a (columns p ! anim_col a) of
           Settled column \<Rightarrow>
             onDateChange (p\<lparr>columns := (columns p)[anim_col a := column]\<rparr>) now
         | Scheduled column \<Rightarrow>
             Inr (requestAnimationFrame a (p\<lparr>columns := (columns p)[anim_col a := column]\<rparr>))))"

text \<open>The target \<^verbatim>\<open>animateToNearest\<close> computes before it starts the closure.\<close>

definition clampedTarget :: "WheelColumn \<Rightarrow> real \<Rightarrow> real" where
  "clampedTarget column targetScrollTop =
     (let maxScroll = (real (length (col_values column)) - 1) * itemHeight
      in max 0 (min maxScroll targetScrollTop))"

definition nearest :: "nat \<Rightarrow> WheelColumn \<Rightarrow> real \<Rightarrow> animation" where
  "nearest columnIndex column targetScrollTop =
     (let nearestIndex = Math_round (clampedTarget column targetScrollTop / itemHeight)
      in \<lparr>anim_col = columnIndex, nearestIndex = nearestIndex,
          nearestScrollTop = of_int nearestIndex * itemHeight\<rparr>)"

definition animateToNearest :: "WheelPicker \<Rightarrow> nat \<Rightarrow> real \<Rightarrow> date_time \<Rightarrow> halt + WheelPicker" where
  "animateToNearest p columnIndex targetScrollTop now =
     (if length (columns p) \<le> columnIndex then Inl TypeError
      else animate p (nearest columnIndex (columns p ! columnIndex) targetScrollTop) now)"

text \<open>
  The settle loop of one animation on its own, frame after frame with nothing else
  touching the column: the number of frames it took and the settled column, or \<open>None\<close>
  when the fuel runs out first.
\<close>

fun settle :: "nat \<Rightarrow> animation \<Rightarrow> WheelColumn \<Rightarrow> (nat \<times> WheelColumn) option" where
  "settle 0 a column = None"
| "settle (Suc n) a column =
     (case animate_col a column of
        Settled column' \<Rightarrow> Some (1, column')
      | Scheduled column' \<Rightarrow> map_option (\<lambda>r. (Suc (fst r), snd r)) (settle n a column'))"

text \<open>
  One animation frame: the callbacks queued so far run in order; what they queue
  themselves waits for the frame after. A callback that throws ends the frame here.
\<close>

fun run_callbacks :: "(nat \<times> animation) list \<Rightarrow> date_time \<Rightarrow> WheelPicker \<Rightarrow> halt + WheelPicker" where
  "run_callbacks [] now p = Inr p"
| "run_callbacks (cb # cbs) now p =
     (case animate p (snd cb) now of
        Inl e \<Rightarrow> Inl e
      | Inr p' \<Rightarrow> run_callbacks cbs now p')"

definition frame :: "WheelPicker \<Rightarrow> date_time \<Rightarrow> halt + WheelPicker" where
  "frame p now = run_callbacks (frames p) now (p\<lparr>frames := []\<rparr>)"

section \<open>Pointer and touch handlers of one column\<close>

definition handleStart :: "WheelPicker \<Rightarrow> nat \<Rightarrow> real \<Rightarrow> int \<Rightarrow> halt + WheelPicker" where
  "handleStart p columnIndex clientY now =
     (if length (columns p) \<le> columnIndex \<or> length (trackers p) \<le> columnIndex then Inl TypeError
      else
        (let t = trackers p ! columnIndex;
             p1 = (case momentumId t of
                     Some i \<Rightarrow> cancelAnimationFrame i p
                   | None \<Rightarrow> p);
             column = columns p1 ! columnIndex
         in Inr (p1\<lparr>trackers := (trackers p1)
                       [columnIndex := t\<lparr>momentumId := None, startY := clientY,
                                         startScrollTop := scrollTop column, lastY := clientY,
                                         lastTime := now, velocity := 0\<rparr>],
                     columns := (columns p1)[columnIndex := column\<lparr>isScrolling := True\<rparr>]\<rparr>)))"

definition handleMove :: "WheelPicker \<Rightarrow> nat \<Rightarrow> real \<Rightarrow> int \<Rightarrow> halt + WheelPicker" where
  "handleMove p columnIndex clientY now =
     (if length (columns p) \<le> columnIndex \<or> length (trackers p) \<le> columnIndex then Inl TypeError
      else if \<not> isScrolling (columns p ! columnIndex) then Inr p
      else
        (let t = trackers p ! columnIndex;
             deltaY = startY t - clientY;
             newScrollTop = startScrollTop t + deltaY;
             timeDelta = now - lastTime t;
             v = (if 0 < timeDelta then (lastY t - clientY) / of_int timeDelta else velocity t)
         in Inr (p\<lparr>trackers := (trackers p)
                      [columnIndex := t\<lparr>velocity := v, lastY := clientY, lastTime := now\<rparr>],
                    columns := (columns p)
                      [columnIndex := (columns p ! columnIndex)\<lparr>scrollTop := newScrollTop\<rparr>]\<rparr>)))"

definition handleEnd :: "WheelPicker \<Rightarrow> nat \<Rightarrow> date_time \<Rightarrow> halt + WheelPicker" where
  "handleEnd p columnIndex now =
     (if length (columns p) \<le> columnIndex \<or> length (trackers p) \<le> columnIndex then Inl TypeError
      else
        (let column = (columns p ! columnIndex)\<lparr>isScrolling := False\<rparr>;
             momentum = velocity (trackers p ! columnIndex) * 20;
             targetScrollTop = scrollTop column + momentum
         in animateToNearest (p\<lparr>columns := (columns p)[columnIndex := column]\<rparr>)
              columnIndex targetScrollTop now))"

definition mouseleave :: "WheelPicker \<Rightarrow> nat \<Rightarrow> date_time \<Rightarrow> halt + WheelPicker" where
  "mouseleave p columnIndex now =
     (if length (columns p) \<le> columnIndex then Inl TypeError
      else if isScrolling (columns p ! columnIndex) then handleEnd p columnIndex now
      else Inr p)"

section \<open>Public operations\<close>

definition getDate :: "WheelPicker \<Rightarrow> date_time option" where
  "getDate p = currentDate p"

definition set_selected :: "nat \<Rightarrow> int \<Rightarrow> WheelColumn list \<Rightarrow> WheelColumn list" where
  "set_selected i v cs = cs[i := (cs ! i)\<lparr>selectedIndex := v\<rparr>]"

definition setDate :: "WheelPicker \<Rightarrow> date_time \<Rightarrow> halt + WheelPicker" where
  "setDate p date =
     (let hourValue = Str (pad2 (d_hours date));
          minuteValue = Str (pad2 (d_minutes date))
      in if fmt p = FDate \<or> fmt p = FDateTime then
           (if length (columns p) < 3 then Inl TypeError
            else
              (let c1 = set_selected 1 (d_date date - 1) (set_selected 0 (d_month date) (columns p));
                   yearIndex = indexOf (col_values (c1 ! 2)) (Num (d_year date));
                   c2 = (if 0 \<le> yearIndex then set_selected 2 yearIndex c1 else c1)
               in if fmt p = FDateTime then
                    (if length (columns p) < 5 then Inl TypeError
                     else
                       (let c3 = set_selected 3 (indexOf (col_values (c2 ! 3)) hourValue) c2;
                            c4 = set_selected 4 (indexOf (col_values (c3 ! 4)) minuteValue) c3
                        in updateColumns
                             (scrollToSelected (p\<lparr>currentDate := Some date, columns := c4\<rparr>))))
                  else updateColumns
                         (scrollToSelected (p\<lparr>currentDate := Some date, columns := c2\<rparr>))))
         else
           (if length (columns p) < 2 then Inl TypeError
            else
              (let c0 = set_selected 0 (indexOf (col_values (columns p ! 0)) hourValue) (columns p);
                   c1 = set_selected 1 (indexOf (col_values (c0 ! 1)) minuteValue) c0
               in updateColumns
                    (scrollToSelected (p\<lparr>currentDate := Some date, columns := c1\<rparr>)))))"

section \<open>What can happen to a picker\<close>

text \<open>
  Mouse and touch listeners call the same three handlers, so one event stands for both;
  \<^verbatim>\<open>destroy()\<close> is not among the events.
  \<open>Start\<close> and \<open>Move\<close> carry the pointer's \<^verbatim>\<open>clientY\<close> and the reading of \<^verbatim>\<open>Date.now()\<close>;
  the events that may reach \<^verbatim>\<open>onDateChange\<close> carry what \<^verbatim>\<open>new Date()\<close> would return.
\<close>

datatype event =
    Start nat real int
  | Move nat real int
  | End nat date_time
  | Leave nat date_time
  | Frame date_time
  | SetDate date_time

fun step :: "WheelPicker \<Rightarrow> event \<Rightarrow> halt + WheelPicker" where
  "step p (Start ci y t) = handleStart p ci y t"
| "step p (Move ci y t) = handleMove p ci y t"
| "step p (End ci now) = handleEnd p ci now"
| "step p (Leave ci now) = mouseleave p ci now"
| "step p (Frame now) = frame p now"
| "step p (SetDate d) = setDate p d"

fun run :: "WheelPicker \<Rightarrow> event list \<Rightarrow> halt + WheelPicker" where
  "run p [] = Inr p"
| "run p (e # es) = (case step p e of Inl h \<Rightarrow> Inl h | Inr p' \<Rightarrow> run p' es)"

text \<open>The value a column shows as selected.\<close>

definition selectedValue :: "WheelPicker \<Rightarrow> nat \<Rightarrow> jsval" where
  "selectedValue p i = js_nth (col_values (columns p ! i)) (selectedIndex (columns p ! i))"

section \<open>Notions used to state the properties\<close>

text \<open>The number of columns \<^verbatim>\<open>render\<close> builds for a format.\<close>

definition column_count :: "format \<Rightarrow> nat" where
  "column_count f = (case f of FDate \<Rightarrow> 3 | FDateTime \<Rightarrow> 5 | FTime \<Rightarrow> 2)"

text \<open>The year the \<^verbatim>\<open>Date\<close> constructor really uses for a year argument.\<close>

definition effective_year :: "int \<Rightarrow> int" where
  "effective_year y = (if 0 \<le> y \<and> y \<le> 99 then 1900 + y else y)"

text \<open>
  The day column already has the length that \<^verbatim>\<open>updateColumns\<close> would give it, so
  \<^verbatim>\<open>updateColumns\<close> leaves the picker alone.
\<close>

definition day_column_current :: "WheelPicker \<Rightarrow> bool" where
  "day_column_current p =
     (fmt p = FTime \<or>
      daysInMonth (selectedValue p 2) (selectedIndex (columns p ! 0))
        = Some (int (length (col_values (columns p ! 1)))))"

text \<open>No handler variable \<^verbatim>\<open>momentumId\<close> holds a frame id.\<close>

definition no_momentum_id :: "WheelPicker \<Rightarrow> bool" where
  "no_momentum_id p = (\<forall>t \<in> set (trackers p). momentumId t = None)"

text \<open>A number of frames that is always enough for the settle loop.\<close>

definition settle_bound :: "animation \<Rightarrow> WheelColumn \<Rightarrow> nat" where
  "settle_bound a column = Suc (nat \<lceil>14 * \<bar>anim_diff a column\<bar>\<rceil>)"

section \<open>Concrete pickers\<close>

definition en_US :: "nat \<Rightarrow> string" where
  "en_US i = [''January'', ''February'', ''March'', ''April'', ''May'', ''June'', ''July'',
     ''August'', ''September'', ''October'', ''November'', ''December''] ! i"

definition ymd :: "int \<Rightarrow> int \<Rightarrow> int \<Rightarrow> date_time" where
  "ymd y m d = \<lparr>d_year = y, d_month = m, d_date = d, d_hours = 0, d_minutes = 0,
                d_seconds = 0, d_ms = 0\<rparr>"

definition demo_options :: "format \<Rightarrow> date_time \<Rightarrow> WheelPickerOptions" where
  "demo_options f d = \<lparr>container = True, initialDate = d, minDate = ymd 2020 0 1,
     maxDate = ymd 2025 11 31, format = f, locale_month = en_US\<rparr>"

text \<open>Construct a picker, then feed it the events.\<close>

definition session :: "WheelPickerOptions \<Rightarrow> event list \<Rightarrow> halt + WheelPicker" where
  "session opts es = (case new_WheelPicker opts of Inl h \<Rightarrow> Inl h | Inr p \<Rightarrow> run p es)"

text \<open>
  A date picker over the years 2020 to 2025 with 2023 selected: month index \<open>m\<close>, a day
  column of \<open>n\<close> entries with index \<open>d\<close> selected and offset \<open>off\<close>, nothing in flight.
\<close>

definition date_picker ::
  "int \<Rightarrow> nat \<Rightarrow> int \<Rightarrow> real \<Rightarrow> date_time option \<Rightarrow> date_time option list \<Rightarrow> WheelPicker" where
  "date_picker m n d off cur out =
     \<lparr>fmt = FDate,
      columns =
        [\<lparr>col_values = map (\<lambda>i. Str (en_US i)) [0 ..< 12], selectedIndex = m,
          scrollTop = of_int m * 40, isScrolling = False\<rparr>,
         \<lparr>col_values = map (\<lambda>i. Num (int i + 1)) [0 ..< n], selectedIndex = d,
          scrollTop = off, isScrolling = False\<rparr>,
         \<lparr>col_values = map (\<lambda>i. Num (2020 + int i)) [0 ..< 6], selectedIndex = 3,
          scrollTop = 120, isScrolling = False\<rparr>],
      currentDate = cur,
      trackers = [new_tracker, new_tracker, new_tracker],
      frames = [],
      next_frame_id = 0,
      fired = out\<rparr>"

text \<open>The picker showing 15 January 2023, as the constructor builds it.\<close>

definition jan15 :: WheelPicker where
  "jan15 = date_picker 0 31 14 560 (Some (ymd 2023 0 15)) []"

text \<open>The same picker after one \<^verbatim>\<open>onChange\<close> call with the Date it shows.\<close>

definition jan15_fired :: WheelPicker where
  "jan15_fired = date_picker 0 31 14 560 (Some (ymd 2023 0 15)) [Some (ymd 2023 0 15)]"

text \<open>An animation of the day column towards index 16, and one towards index 30.\<close>

definition snap16 :: animation where
  "snap16 = \<lparr>anim_col = 1, nearestIndex = 16, nearestScrollTop = 640\<rparr>"

definition stale_anim :: animation where
  "stale_anim = \<lparr>anim_col = 1, nearestIndex = 30, nearestScrollTop = 1200\<rparr>"

text \<open>
  The same picker with the day column released at offset 610 and nothing queued, and after
  the first step of the animation towards index 16, which is then waiting for a frame.
\<close>

definition released :: WheelPicker where
  "released = date_picker 0 31 14 610 (Some (ymd 2023 0 15)) []"

definition in_flight :: WheelPicker where
  "in_flight = (date_picker 0 31 14 (1229 / 2) (Some (ymd 2023 0 15)) [])
                 \<lparr>frames := [(0, snap16)], next_frame_id := 1\<rparr>"

text \<open>
  The day column a quarter of a pixel short of index 16, and the picker after the animation
  towards index 16 has settled there.
\<close>

definition near16 :: WheelPicker where
  "near16 = date_picker 0 31 14 (2559 / 4) (Some (ymd 2023 0 15)) []"

definition on17 :: WheelPicker where
  "on17 = date_picker 0 31 16 640 (Some (ymd 2023 0 17)) [Some (ymd 2023 0 17)]"

definition flick_then_setDate :: "event list" where
  "flick_then_setDate =
     [Start 1 0 0, Move 1 (- 620) 100, End 1 (ymd 2023 5 5), SetDate (ymd 2023 1 10)]"

text \<open>A Date with a time of day: 29 February 2024, 13:45:30.500.\<close>

definition feb29_afternoon :: date_time where
  "feb29_afternoon = \<lparr>d_year = 2024, d_month = 1, d_date = 29, d_hours = 13, d_minutes = 45,
                       d_seconds = 30, d_ms = 500\<rparr>"

text \<open>What a caller can see of a picker: the selected values, \<^verbatim>\<open>getDate()\<close>, the \<^verbatim>\<open>onChange\<close> calls.\<close>

definition outcome ::
  "halt + WheelPicker \<Rightarrow> halt + jsval list \<times> date_time option \<times> date_time option list" where
  "outcome r =
     map_sum id (\<lambda>p. (map (selectedValue p) [0 ..< length (columns p)], getDate p, fired p)) r"

text \<open>The offset and drag flag of one column, and the animations waiting for a frame.\<close>

definition motion :: "nat \<Rightarrow> halt + WheelPicker \<Rightarrow> halt + real \<times> bool \<times> animation list" where
  "motion ci r =
     map_sum id (\<lambda>p. (scrollTop (columns p ! ci), isScrolling (columns p ! ci), map snd (frames p))) r"

text \<open>The day column's selected index and length, \<^verbatim>\<open>getDate()\<close> and the \<^verbatim>\<open>onChange\<close> calls.\<close>

definition day_state ::
  "halt + WheelPicker \<Rightarrow> halt + int \<times> nat \<times> date_time option \<times> date_time option list" where
  "day_state r =
     map_sum id (\<lambda>p. (selectedIndex (columns p ! 1), length (col_values (columns p ! 1)),
                      getDate p, fired p)) r"


section \<open>Basic facts about the operations\<close>

lemma updateColumns_fired: "updateColumns p = Inr p' \<Longrightarrow> fired p' = fired p"
  by (auto simp: updateColumns_def Let_def split: if_splits option.splits)

lemma updateColumns_currentDate: "updateColumns p = Inr p' \<Longrightarrow> currentDate p' = currentDate p"
  by (auto simp: updateColumns_def Let_def split: if_splits option.splits)

lemma updateColumns_other:
  "updateColumns p = Inr p' \<Longrightarrow> i \<noteq> 1 \<Longrightarrow> columns p' ! i = columns p ! i"
  by (auto simp: updateColumns_def Let_def split: if_splits option.splits)

lemma scrollToSelected_fields [simp]:
  "fired (scrollToSelected p) = fired p"
  "currentDate (scrollToSelected p) = currentDate p"
  "frames (scrollToSelected p) = frames p"
  "trackers (scrollToSelected p) = trackers p"
  "fmt (scrollToSelected p) = fmt p"
  "length (columns (scrollToSelected p)) = length (columns p)"
  by (simp_all add: scrollToSelected_def)

lemma setDate_fired: "setDate p d = Inr p' \<Longrightarrow> fired p' = fired p"
  by (auto simp: setDate_def Let_def split: if_splits dest!: updateColumns_fired)

lemma setDate_currentDate: "setDate p d = Inr p' \<Longrightarrow> currentDate p' = Some d"
  by (auto simp: setDate_def Let_def split: if_splits dest!: updateColumns_currentDate)

lemma handleStart_fired: "handleStart p ci y t = Inr p' \<Longrightarrow> fired p' = fired p"
  by (auto simp: handleStart_def Let_def cancelAnimationFrame_def split: if_splits option.splits)

lemma handleMove_fired: "handleMove p ci y t = Inr p' \<Longrightarrow> fired p' = fired p"
  by (auto simp: handleMove_def Let_def split: if_splits)

lemma carry_day_in_month:
  "1 \<le> d \<Longrightarrow> d \<le> month_len (fst ym) (snd ym) \<Longrightarrow> carry_day ym d = (ym, d)"
  by (subst carry_day.simps) simp

lemma carry_day_zero:
  "carry_day ym 0 = (prev_month ym, month_len (fst (prev_month ym)) (snd (prev_month ym)))"
proof -
  have "28 \<le> month_len (fst (prev_month ym)) (snd (prev_month ym))"
    by (simp add: month_len_def)
  then show ?thesis
    by (subst carry_day.simps) (simp add: carry_day_in_month)
qed

lemma daysInMonth_Num:
  assumes "0 \<le> m" "m \<le> 11"
  shows "daysInMonth (Num y) m = Some (month_len (effective_year y) m)"
proof -
  have "prev_month (effective_year y + (m + 1) div 12, (m + 1) mod 12) = (effective_year y, m)"
    using assms by (cases "m = 11") (auto simp: prev_month_def)
  then show ?thesis
    by (simp add: daysInMonth_def new_Date_js_def to_number_def new_Date_def Let_def
        carry_day_zero effective_year_def)
qed

lemma daysInMonth_Num_Some: "\<exists>n. daysInMonth (Num y) m = Some n"
  by (simp add: daysInMonth_def new_Date_js_def to_number_def)

lemma indexOf_found: "0 \<le> indexOf xs v \<Longrightarrow> js_nth xs (indexOf xs v) = v"
proof (induction xs)
  case Nil
  then show ?case by simp
next
  case (Cons x xs)
  show ?case
  proof (cases "x = v")
    case True
    then show ?thesis by (simp add: js_nth_def)
  next
    case False
    with Cons.prems have nn: "0 \<le> indexOf xs v"
      by (simp add: Let_def split: if_splits)
    with Cons.IH have "js_nth xs (indexOf xs v) = v" by simp
    with False nn show ?thesis
      by (auto simp: js_nth_def Let_def nat_add_distrib split: if_splits)
  qed
qed

lemma updateColumns_time: "fmt p = FTime \<Longrightarrow> updateColumns p = Inr p"
  by (simp add: updateColumns_def)

lemma updateColumns_returns:
  assumes "3 \<le> length (columns p)"
    and "js_nth (col_values (columns p ! 2)) (selectedIndex (columns p ! 2)) = Num y"
  shows "\<exists>p'. updateColumns p = Inr p'"
proof -
  obtain n where "daysInMonth (Num y) (selectedIndex (columns p ! 0)) = Some n"
    using daysInMonth_Num_Some by blast
  with assms show ?thesis
    by (auto simp: updateColumns_def Let_def)
qed

lemma set_selected_length [simp]: "length (set_selected i v cs) = length cs"
  by (simp add: set_selected_def)

lemma set_selected_nth:
  "set_selected i v cs ! j = (if j = i \<and> i < length cs then (cs ! i)\<lparr>selectedIndex := v\<rparr> else cs ! j)"
  by (cases "i < length cs") (auto simp: set_selected_def nth_list_update list_update_beyond)

lemma scrollToSelected_nth:
  "i < length (columns p) \<Longrightarrow>
   columns (scrollToSelected p) ! i = (columns p ! i)\<lparr>scrollTop := of_int (selectedIndex (columns p ! i)) * itemHeight\<rparr>"
  by (simp add: scrollToSelected_def)

lemma animate_col_Scheduled:
  "animate_col a c = Scheduled c' \<longleftrightarrow>
     (1 / 2 \<le> \<bar>anim_diff a c\<bar> \<and> c' = c\<lparr>scrollTop := scrollTop c + anim_diff a c * (15 / 100)\<rparr>)"
  by (auto simp: animate_col_def anim_diff_def Let_def)

lemma animate_col_Settled:
  "animate_col a c = Settled c' \<longleftrightarrow>
     (\<bar>anim_diff a c\<bar> < 1 / 2 \<and> c' = c\<lparr>scrollTop := nearestScrollTop a, selectedIndex := nearestIndex a\<rparr>)"
  by (auto simp: animate_col_def anim_diff_def Let_def)

lemma anim_diff_Scheduled:
  "animate_col a c = Scheduled c' \<Longrightarrow> anim_diff a c' = anim_diff a c * (17 / 20)"
proof -
  assume "animate_col a c = Scheduled c'"
  then have "scrollTop c' = scrollTop c + (nearestScrollTop a - scrollTop c) * (15 / 100)"
    by (auto simp: animate_col_Scheduled anim_diff_def)
  then show ?thesis
    unfolding anim_diff_def by (simp add: field_simps)
qed

lemma anim_diff_decreases:
  assumes "animate_col a c = Scheduled c'"
  shows "\<bar>anim_diff a c'\<bar> < \<bar>anim_diff a c\<bar>"
proof -
  from assms have big: "1 / 2 \<le> \<bar>anim_diff a c\<bar>"
    by (simp add: animate_col_Scheduled)
  have "\<bar>anim_diff a c'\<bar> = \<bar>anim_diff a c\<bar> * (17 / 20)"
    using anim_diff_Scheduled[OF assms] by (simp add: abs_mult)
  with big show ?thesis by simp
qed

lemma settle_within:
  "nat \<lceil>14 * \<bar>anim_diff a c\<bar>\<rceil> \<le> m \<Longrightarrow>
   \<exists>k c'. settle (Suc m) a c = Some (k, c') \<and> k \<le> Suc m \<and> 1 \<le> k"
proof (induction m arbitrary: c)
  case 0
  then have "14 * \<bar>anim_diff a c\<bar> \<le> 0"
    by (simp add: ceiling_le_iff)
  then have "\<bar>anim_diff a c\<bar> < 1 / 2" by simp
  then show ?case
    by (simp add: animate_col_def anim_diff_def Let_def)
next
  case (Suc m)
  show ?case
  proof (cases "animate_col a c")
    case (Settled c1)
    then show ?thesis by simp
  next
    case (Scheduled c1)
    then have big: "1 / 2 \<le> \<bar>anim_diff a c\<bar>"
      by (simp add: animate_col_Scheduled)
    have "\<bar>anim_diff a c1\<bar> = \<bar>anim_diff a c\<bar> * (17 / 20)"
      using anim_diff_Scheduled[OF Scheduled] by (simp add: abs_mult)
    with big have "14 * \<bar>anim_diff a c1\<bar> + 1 \<le> 14 * \<bar>anim_diff a c\<bar>"
      by simp
    then have "\<lceil>14 * \<bar>anim_diff a c1\<bar>\<rceil> + 1 \<le> \<lceil>14 * \<bar>anim_diff a c\<bar>\<rceil>"
      by (metis ceiling_add_one ceiling_mono)
    with Suc.prems have "nat \<lceil>14 * \<bar>anim_diff a c1\<bar>\<rceil> \<le> m"
      by linarith
    from Suc.IH[OF this] obtain k c' where "settle (Suc m) a c1 = Some (k, c')" "k \<le> Suc m" "1 \<le> k"
      by blast
    with Scheduled show ?thesis
      by (subst settle.simps) simp
  qed
qed

lemma settle_final:
  "settle n a c = Some (k, c') \<Longrightarrow>
   scrollTop c' = nearestScrollTop a \<and> selectedIndex c' = nearestIndex a
   \<and> col_values c' = col_values c \<and> isScrolling c' = isScrolling c \<and> 1 \<le> k \<and> k \<le> n"
proof (induction n arbitrary: c k)
  case 0
  then show ?case by simp
next
  case (Suc n)
  show ?case
  proof (cases "animate_col a c")
    case (Settled c1)
    with Suc.prems show ?thesis
      by (auto simp: animate_col_Settled)
  next
    case (Scheduled c1)
    with Suc.prems obtain k' where k': "settle n a c1 = Some (k', c')" "k = Suc k'"
      by auto
    from Suc.IH[OF k'(1)] Scheduled k'(2) show ?thesis
      by (auto simp: animate_col_Scheduled)
  qed
qed

lemma updateColumns_current:
  "day_column_current p \<Longrightarrow> updateColumns p = Inr p' \<Longrightarrow> p' = p"
  by (auto simp: updateColumns_def day_column_current_def selectedValue_def Let_def split: if_splits)

lemma updateColumns_current_returns:
  "day_column_current p \<Longrightarrow> length (columns p) = column_count (fmt p) \<Longrightarrow> updateColumns p = Inr p"
  by (auto simp: updateColumns_def day_column_current_def selectedValue_def Let_def column_count_def split: format.splits)

lemma onDateChange_Inr:
  "onDateChange p now = Inr p' \<longleftrightarrow>
     (\<exists>d. compose p now = Inr d \<and> (\<exists>q. updateColumns (p\<lparr>currentDate := d\<rparr>) = Inr q \<and> p' = q\<lparr>fired := fired q @ [d]\<rparr>))"
  by (auto simp: onDateChange_def split: sum.splits)

lemma onDateChange_fired:
  "onDateChange p now = Inr p' \<Longrightarrow> fired p' = fired p @ [currentDate p'] \<and> compose p now = Inr (currentDate p')"
proof -
  assume "onDateChange p now = Inr p'"
  then obtain d q where d: "compose p now = Inr d"
    and q: "updateColumns (p\<lparr>currentDate := d\<rparr>) = Inr q" and p': "p' = q\<lparr>fired := fired q @ [d]\<rparr>"
    by (auto simp: onDateChange_Inr)
  from updateColumns_fired[OF q] updateColumns_currentDate[OF q] d p' show ?thesis
    by simp
qed

lemma onDateChange_other:
  "onDateChange p now = Inr p' \<Longrightarrow> i \<noteq> 1 \<Longrightarrow> columns p' ! i = columns p ! i"
  by (auto simp: onDateChange_Inr dest: updateColumns_other)

lemma onDateChange_current:
  "onDateChange p now = Inr p' \<Longrightarrow> day_column_current p \<Longrightarrow> columns p' = columns p"
proof -
  assume a: "onDateChange p now = Inr p'" and c: "day_column_current p"
  from a obtain d q where q: "updateColumns (p\<lparr>currentDate := d\<rparr>) = Inr q" "p' = q\<lparr>fired := fired q @ [d]\<rparr>"
    by (auto simp: onDateChange_Inr)
  from c have "day_column_current (p\<lparr>currentDate := d\<rparr>)"
    by (simp add: day_column_current_def selectedValue_def)
  from updateColumns_current[OF this q(1)] q(2) show ?thesis by simp
qed

lemma clampedTarget_bounds:
  assumes "col_values c \<noteq> []"
  shows "0 \<le> clampedTarget c t" "clampedTarget c t \<le> (real (length (col_values c)) - 1) * itemHeight"
proof -
  from assms have "1 \<le> real (length (col_values c))"
    by (cases "col_values c") simp_all
  then have "0 \<le> (real (length (col_values c)) - 1) * itemHeight"
    by (simp add: itemHeight_def)
  then show "0 \<le> clampedTarget c t" "clampedTarget c t \<le> (real (length (col_values c)) - 1) * itemHeight"
    by (simp_all add: clampedTarget_def Let_def)
qed

lemma nearestIndex_range:
  assumes "col_values c \<noteq> []"
  shows "0 \<le> nearestIndex (nearest ci c t)" "nearestIndex (nearest ci c t) < int (length (col_values c))"
proof -
  let ?x = "clampedTarget c t / itemHeight"
  from clampedTarget_bounds[OF assms, of t]
  have "0 \<le> ?x" "?x \<le> real (length (col_values c)) - 1"
    by (simp_all add: itemHeight_def)
  then have "0 \<le> ?x + 1 / 2" "?x + 1 / 2 < real_of_int (int (length (col_values c)))"
    by simp_all
  then have "0 \<le> \<lfloor>?x + 1 / 2\<rfloor>" "\<lfloor>?x + 1 / 2\<rfloor> < int (length (col_values c))"
    by (simp_all add: floor_less_iff)
  then show "0 \<le> nearestIndex (nearest ci c t)" "nearestIndex (nearest ci c t) < int (length (col_values c))"
    by (simp_all add: nearest_def Let_def Math_round_def)
qed

lemma animate_terminal_column:
  assumes "animate q a now = Inr q'"
    and "\<bar>anim_diff a (columns q ! anim_col a)\<bar> < 1 / 2"
    and "anim_col a \<noteq> 1 \<or> day_column_current q"
  shows "scrollTop (columns q' ! anim_col a) = nearestScrollTop a
       \<and> selectedIndex (columns q' ! anim_col a) = nearestIndex a"
proof -
  let ?ci = "anim_col a"
  let ?c = "(columns q ! ?ci)\<lparr>scrollTop := nearestScrollTop a, selectedIndex := nearestIndex a\<rparr>"
  let ?q1 = "q\<lparr>columns := (columns q)[?ci := ?c]\<rparr>"
  from assms(1) have len: "?ci < length (columns q)"
    by (auto simp: animate_def split: if_splits)
  from assms(2) have "animate_col a (columns q ! ?ci) = Settled ?c"
    by (simp add: animate_col_Settled)
  with assms(1) len have od: "onDateChange ?q1 now = Inr q'"
    by (simp add: animate_def)
  have "columns q' ! ?ci = ?c"
  proof (cases "?ci = 1")
    case False
    from onDateChange_other[OF od False] len show ?thesis by simp
  next
    case True
    with assms(3) have cur: "day_column_current q" by simp
    have "day_column_current ?q1"
    proof (cases "fmt q = FTime")
      case True
      then show ?thesis by (simp add: day_column_current_def)
    next
      case False
      with cur \<open>?ci = 1\<close> len show ?thesis
        by (simp add: day_column_current_def selectedValue_def)
    qed
    from onDateChange_current[OF od this] len show ?thesis by simp
  qed
  then show ?thesis by simp
qed

lemma requestAnimationFrame_fields [simp]:
  "fired (requestAnimationFrame a p) = fired p"
  "columns (requestAnimationFrame a p) = columns p"
  "trackers (requestAnimationFrame a p) = trackers p"
  "fmt (requestAnimationFrame a p) = fmt p"
  "currentDate (requestAnimationFrame a p) = currentDate p"
  by (simp_all add: requestAnimationFrame_def)

lemma animate_fired:
  assumes "animate q a now = Inr q'"
  shows "fired q' = fired q @ (if \<bar>anim_diff a (columns q ! anim_col a)\<bar> < 1 / 2 then [currentDate q'] else [])"
proof (cases "animate_col a (columns q ! anim_col a)")
  case (Settled c)
  with assms have "onDateChange (q\<lparr>columns := (columns q)[anim_col a := c]\<rparr>) now = Inr q'"
    by (auto simp: animate_def split: if_splits)
  from onDateChange_fired[OF this] Settled show ?thesis
    by (simp add: animate_col_Settled)
next
  case (Scheduled c)
  with assms have "q' = requestAnimationFrame a (q\<lparr>columns := (columns q)[anim_col a := c]\<rparr>)"
    by (auto simp: animate_def split: if_splits)
  moreover from Scheduled have "\<not> \<bar>anim_diff a (columns q ! anim_col a)\<bar> < 1 / 2"
    by (simp add: animate_col_Scheduled)
  ultimately show ?thesis by simp
qed

lemma compose_cong:
  assumes "fmt q = fmt p" "length (columns q) = length (columns p)"
    and "\<And>i. col_values (columns q ! i) = col_values (columns p ! i)
          \<and> selectedIndex (columns q ! i) = selectedIndex (columns p ! i)"
  shows "compose q now = compose p now"
  using assms by (simp add: compose_def Let_def)

lemma compose_returns:
  "length (columns p) = column_count (fmt p) \<Longrightarrow> \<exists>d. compose p now = Inr d"
  by (auto simp: compose_def Let_def column_count_def split: format.splits)

lemma animate_Settled:
  "anim_col a < length (columns q) \<Longrightarrow> animate_col a (columns q ! anim_col a) = Settled c \<Longrightarrow>
   animate q a now = onDateChange (q\<lparr>columns := (columns q)[anim_col a := c]\<rparr>) now"
  by (simp add: animate_def)

lemma zero_net_drag:
  assumes ci: "ci < length (columns z)" "ci < length (trackers z)"
    and len: "length (columns z) = column_count (fmt z)"
    and still: "velocity (trackers z ! ci) = 0"
    and snapped: "scrollTop (columns z ! ci) = of_int (selectedIndex (columns z ! ci)) * itemHeight"
    and range: "0 \<le> selectedIndex (columns z ! ci)"
      "selectedIndex (columns z ! ci) < int (length (col_values (columns z ! ci)))"
    and cur: "day_column_current z"
  shows "\<exists>d. compose z now = Inr d \<and>
     handleEnd z ci now =
       Inr (z\<lparr>columns := (columns z)[ci := (columns z ! ci)\<lparr>isScrolling := False\<rparr>],
              currentDate := d, fired := fired z @ [d]\<rparr>)"
proof -
  define c where "c = (columns z ! ci)\<lparr>isScrolling := False\<rparr>"
  define z1 where "z1 = z\<lparr>columns := (columns z)[ci := c]\<rparr>"
  define a where "a = nearest ci c (scrollTop c + velocity (trackers z ! ci) * 20)"
  have c_fields: "scrollTop c = of_int (selectedIndex c) * itemHeight"
    "selectedIndex c = selectedIndex (columns z ! ci)" "col_values c = col_values (columns z ! ci)"
    by (simp_all add: c_def snapped)
  have z1_col: "columns z1 ! ci = c" "length (columns z1) = length (columns z)" "fmt z1 = fmt z"
    "fired z1 = fired z"
    using ci(1) by (simp_all add: z1_def)
  obtain d where d: "compose z now = Inr d"
    using compose_returns[OF len] by blast
  have ct: "clampedTarget c (scrollTop c) = of_int (selectedIndex c) * itemHeight"
  proof -
    from range have "real_of_int (selectedIndex c) \<le> real (length (col_values c)) - 1"
      unfolding c_fields by linarith
    then have "of_int (selectedIndex c) * itemHeight \<le> (real (length (col_values c)) - 1) * itemHeight"
      by (simp add: itemHeight_def)
    moreover from range have "0 \<le> real_of_int (selectedIndex c) * itemHeight"
      by (simp add: itemHeight_def c_fields)
    ultimately show ?thesis
      by (simp add: clampedTarget_def Let_def c_fields(1))
  qed
  have ni: "nearestIndex a = selectedIndex c"
    using ct by (simp add: a_def still nearest_def Let_def Math_round_def itemHeight_def)
  then have ns: "nearestScrollTop a = scrollTop c"
    by (simp add: a_def nearest_def Let_def c_fields(1))
  have ac: "anim_col a = ci" by (simp add: a_def nearest_def Let_def)
  have settled: "animate_col a c = Settled c"
    using ni ns by (simp add: animate_col_Settled anim_diff_def)
  have "animate z1 a now = onDateChange (z1\<lparr>columns := (columns z1)[anim_col a := c]\<rparr>) now"
    by (rule animate_Settled) (simp_all add: ac z1_col settled ci(1))
  moreover have "z1\<lparr>columns := (columns z1)[anim_col a := c]\<rparr> = z1"
    by (simp add: ac z1_def)
  ultimately have an: "animate z1 a now = onDateChange z1 now" by simp
  have "compose z1 now = compose z now"
    by (rule compose_cong) (simp_all add: z1_def c_def nth_list_update ci(1))
  with d have co: "compose z1 now = Inr d" by simp
  have "day_column_current (z1\<lparr>currentDate := d\<rparr>)"
    using cur ci(1) by (auto simp: day_column_current_def selectedValue_def nth_list_update z1_def c_def)
  moreover have "length (columns (z1\<lparr>currentDate := d\<rparr>)) = column_count (fmt (z1\<lparr>currentDate := d\<rparr>))"
    using len by (simp add: z1_col)
  ultimately have "updateColumns (z1\<lparr>currentDate := d\<rparr>) = Inr (z1\<lparr>currentDate := d\<rparr>)"
    by (rule updateColumns_current_returns)
  with co have "onDateChange z1 now = Inr (z1\<lparr>currentDate := d, fired := fired z @ [d]\<rparr>)"
    by (simp add: onDateChange_def z1_col)
  moreover have "handleEnd z ci now = animate z1 a now"
    using ci by (simp add: handleEnd_def Let_def animateToNearest_def z1_def a_def c_def)
  ultimately show ?thesis
    using d an by (simp add: z1_def c_def)
qed

lemma run_append:
  "run p (es @ fs) = (case run p es of Inl h \<Rightarrow> Inl h | Inr p' \<Rightarrow> run p' fs)"
  by (induction es arbitrary: p) (auto split: sum.splits)

lemma frame_single:
  assumes "frames p = [(i, a)]" and "anim_col a < length (columns p)"
  shows "frame p now =
     (case animate_col a (columns p ! anim_col a) of
        Settled c \<Rightarrow> onDateChange (p\<lparr>frames := [], columns := (columns p)[anim_col a := c]\<rparr>) now
      | Scheduled c \<Rightarrow>
          Inr (p\<lparr>frames := [(next_frame_id p, a)], next_frame_id := Suc (next_frame_id p),
                 columns := (columns p)[anim_col a := c]\<rparr>))"
  using assms
  by (auto simp: frame_def animate_def requestAnimationFrame_def split: anim_step.splits sum.splits)

lemma frames_follow_settle:
  assumes "settle n a c = Some (k, c')"
    and "frames p = [(i, a)]" and "anim_col a < length (columns p)"
    and "columns p ! anim_col a = c"
  shows "run p (replicate k (Frame now)) =
     onDateChange (p\<lparr>frames := [], next_frame_id := next_frame_id p + (k - 1),
                     columns := (columns p)[anim_col a := c']\<rparr>) now"
  using assms
proof (induction n arbitrary: c k p i)
  case 0
  then show ?case by simp
next
  case (Suc n)
  show ?case
  proof (cases "animate_col a c")
    case (Settled c1)
    with Suc.prems(1) have k: "k = 1" "c' = c1" by simp_all
    have "frame p now = onDateChange (p\<lparr>frames := [], columns := (columns p)[anim_col a := c1]\<rparr>) now"
      using frame_single[OF Suc.prems(2,3), of now] Settled Suc.prems(4) by simp
    then show ?thesis
      by (simp add: k split: sum.splits)
  next
    case (Scheduled c1)
    with Suc.prems(1) obtain k' where k': "settle n a c1 = Some (k', c')" "k = Suc k'"
      by auto
    from settle_final[OF k'(1)] have pos: "1 \<le> k'" by simp
    define p1 where "p1 = p\<lparr>frames := [(next_frame_id p, a)], next_frame_id := Suc (next_frame_id p),
                 columns := (columns p)[anim_col a := c1]\<rparr>"
    have fr: "frame p now = Inr p1"
      using frame_single[OF Suc.prems(2,3), of now] Scheduled Suc.prems(4) by (simp add: p1_def)
    have "run p1 (replicate k' (Frame now)) =
       onDateChange (p1\<lparr>frames := [], next_frame_id := next_frame_id p1 + (k' - 1),
                     columns := (columns p1)[anim_col a := c']\<rparr>) now"
      by (rule Suc.IH[OF k'(1)]) (simp_all add: p1_def Suc.prems(3))
    moreover have "p1\<lparr>frames := [], next_frame_id := next_frame_id p1 + (k' - 1),
                     columns := (columns p1)[anim_col a := c']\<rparr>
        = p\<lparr>frames := [], next_frame_id := next_frame_id p + (k - 1),
                     columns := (columns p)[anim_col a := c']\<rparr>"
      using pos by (simp add: p1_def k'(2))
    ultimately show ?thesis
      using fr by (simp add: k'(2))
  qed
qed

lemma settle_after:
  assumes "\<forall>j<k. 1 / 2 \<le> \<bar>anim_diff a c\<bar> * (17 / 20) ^ j"
    and "\<bar>anim_diff a c\<bar> * (17 / 20) ^ k < 1 / 2"
  shows "settle (Suc k + m) a c
     = Some (Suc k, c\<lparr>scrollTop := nearestScrollTop a, selectedIndex := nearestIndex a\<rparr>)"
  using assms
proof (induction k arbitrary: c)
  case 0
  then have "animate_col a c = Settled (c\<lparr>scrollTop := nearestScrollTop a, selectedIndex := nearestIndex a\<rparr>)"
    by (simp add: animate_col_Settled)
  then show ?case by simp
next
  case (Suc k)
  define c1 where "c1 = c\<lparr>scrollTop := scrollTop c + anim_diff a c * (15 / 100)\<rparr>"
  from Suc.prems(1) have "1 / 2 \<le> \<bar>anim_diff a c\<bar> * (17 / 20) ^ 0" by blast
  then have sch: "animate_col a c = Scheduled c1"
    by (simp add: animate_col_Scheduled c1_def)
  have d1: "\<bar>anim_diff a c1\<bar> = \<bar>anim_diff a c\<bar> * (17 / 20)"
    using anim_diff_Scheduled[OF sch] by (simp add: abs_mult)
  have "\<forall>j<k. 1 / 2 \<le> \<bar>anim_diff a c1\<bar> * (17 / 20) ^ j"
  proof (intro allI impI)
    fix j assume "j < k"
    then have "Suc j < Suc k" by simp
    with Suc.prems(1) have "1 / 2 \<le> \<bar>anim_diff a c\<bar> * (17 / 20) ^ Suc j"
      by blast
    moreover have "\<bar>anim_diff a c1\<bar> * (17 / 20) ^ j = \<bar>anim_diff a c\<bar> * (17 / 20) ^ Suc j"
      by (simp add: d1)
    ultimately show "1 / 2 \<le> \<bar>anim_diff a c1\<bar> * (17 / 20) ^ j"
      by (simp only:)
  qed
  moreover have "\<bar>anim_diff a c1\<bar> * (17 / 20) ^ k < 1 / 2"
  proof -
    have "\<bar>anim_diff a c1\<bar> * (17 / 20) ^ k = \<bar>anim_diff a c\<bar> * (17 / 20) ^ Suc k"
      by (simp add: d1)
    with Suc.prems(2) show ?thesis by (simp only:)
  qed
  ultimately have "settle (Suc k + m) a c1
     = Some (Suc k, c1\<lparr>scrollTop := nearestScrollTop a, selectedIndex := nearestIndex a\<rparr>)"
    by (rule Suc.IH)
  moreover have "c1\<lparr>scrollTop := nearestScrollTop a, selectedIndex := nearestIndex a\<rparr>
       = c\<lparr>scrollTop := nearestScrollTop a, selectedIndex := nearestIndex a\<rparr>"
    by (simp add: c1_def)
  ultimately show ?case
    using sch by simp
qed

lemma session_append:
  "session opts (es @ fs) = (case session opts es of Inl h \<Rightarrow> Inl h | Inr p \<Rightarrow> run p fs)"
  by (simp add: session_def run_append split: sum.splits)

section \<open>The clamp, the rounding, and the animation as the picker runs it\<close>

lemma clampedTarget_cases:
  assumes "col_values c \<noteq> []"
  shows "clampedTarget c t =
     (if t < 0 then 0
      else if (real (length (col_values c)) - 1) * itemHeight < t
           then (real (length (col_values c)) - 1) * itemHeight
      else t)"
proof -
  from assms have "1 \<le> real (length (col_values c))"
    by (cases "col_values c") simp_all
  then have "0 \<le> (real (length (col_values c)) - 1) * itemHeight"
    by (simp add: itemHeight_def)
  then show ?thesis
    by (auto simp: clampedTarget_def Let_def)
qed

lemma Math_round_interval:
  "of_int (Math_round x) - 1 / 2 \<le> x \<and> x < of_int (Math_round x) + 1 / 2"
  unfolding Math_round_def by linarith

lemma Math_round_nearest:
  "\<bar>of_int (Math_round x) - x\<bar> \<le> \<bar>of_int j - x\<bar>"
proof -
  have i: "of_int (Math_round x) - 1 / 2 \<le> x" "x < of_int (Math_round x) + 1 / 2"
    using Math_round_interval[of x] by simp_all
  consider "j = Math_round x" | "Math_round x + 1 \<le> j" | "j \<le> Math_round x - 1"
    by linarith
  then show ?thesis
  proof cases
    case 1
    then show ?thesis by simp
  next
    case 2
    then have "real_of_int (Math_round x) + 1 \<le> of_int j" by linarith
    with i show ?thesis by linarith
  next
    case 3
    then have "real_of_int j \<le> of_int (Math_round x) - 1" by linarith
    with i show ?thesis by linarith
  qed
qed

lemma nearest_interval:
  "of_int (nearestIndex (nearest ci c t)) * itemHeight - itemHeight / 2 \<le> clampedTarget c t
   \<and> clampedTarget c t < of_int (nearestIndex (nearest ci c t)) * itemHeight + itemHeight / 2"
  using Math_round_interval[of "clampedTarget c t / itemHeight"]
  by (simp add: nearest_def Let_def itemHeight_def field_simps)

lemma nearest_is_nearest:
  "\<bar>nearestScrollTop (nearest ci c t) - clampedTarget c t\<bar>
     \<le> \<bar>of_int j * itemHeight - clampedTarget c t\<bar>"
proof -
  let ?x = "clampedTarget c t / itemHeight"
  have "\<bar>of_int (Math_round ?x) - ?x\<bar> \<le> \<bar>of_int j - ?x\<bar>"
    by (rule Math_round_nearest)
  then have "\<bar>of_int (Math_round ?x) - ?x\<bar> * 40 \<le> \<bar>of_int j - ?x\<bar> * 40"
    by simp
  moreover have "\<bar>of_int k - ?x\<bar> * 40 = \<bar>of_int k * itemHeight - clampedTarget c t\<bar>" for k
    by (simp add: itemHeight_def abs_if field_simps)
  ultimately show ?thesis
    by (simp add: nearest_def Let_def)
qed

lemma animate_Scheduled:
  assumes "anim_col a < length (columns p)"
    and "1 / 2 \<le> \<bar>anim_diff a (columns p ! anim_col a)\<bar>"
  shows "\<exists>p1. animate p a now = Inr p1
     \<and> frames p1 = frames p @ [(next_frame_id p, a)]
     \<and> next_frame_id p1 = Suc (next_frame_id p)
     \<and> fired p1 = fired p
     \<and> anim_diff a (columns p1 ! anim_col a) = anim_diff a (columns p ! anim_col a) * (17 / 20)
     \<and> \<bar>anim_diff a (columns p1 ! anim_col a)\<bar> < \<bar>anim_diff a (columns p ! anim_col a)\<bar>"
proof -
  define c1 where "c1 = (columns p ! anim_col a)
      \<lparr>scrollTop := scrollTop (columns p ! anim_col a) + anim_diff a (columns p ! anim_col a) * (15 / 100)\<rparr>"
  have sch: "animate_col a (columns p ! anim_col a) = Scheduled c1"
    using assms(2) by (simp add: animate_col_Scheduled c1_def)
  then have "animate p a now = Inr (requestAnimationFrame a (p\<lparr>columns := (columns p)[anim_col a := c1]\<rparr>))"
    using assms(1) by (simp add: animate_def)
  moreover have "anim_diff a c1 = anim_diff a (columns p ! anim_col a) * (17 / 20)"
    by (rule anim_diff_Scheduled[OF sch])
  moreover have "\<bar>anim_diff a c1\<bar> < \<bar>anim_diff a (columns p ! anim_col a)\<bar>"
    by (rule anim_diff_decreases[OF sch])
  ultimately show ?thesis
    using assms(1) by (simp add: requestAnimationFrame_def)
qed

lemma frame_Scheduled:
  assumes "frames q = [(i, a)]" and "anim_col a < length (columns q)"
    and "1 / 2 \<le> \<bar>anim_diff a (columns q ! anim_col a)\<bar>"
  shows "\<exists>q1. frame q now = Inr q1
     \<and> frames q1 = [(next_frame_id q, a)]
     \<and> fired q1 = fired q
     \<and> \<bar>anim_diff a (columns q1 ! anim_col a)\<bar> < \<bar>anim_diff a (columns q ! anim_col a)\<bar>"
proof -
  have len: "anim_col a < length (columns (q\<lparr>frames := []\<rparr>))"
    and big: "1 / 2 \<le> \<bar>anim_diff a (columns (q\<lparr>frames := []\<rparr>) ! anim_col a)\<bar>"
    using assms(2,3) by simp_all
  from animate_Scheduled[OF len big, of now] obtain p1 where
    p1: "animate (q\<lparr>frames := []\<rparr>) a now = Inr p1" "frames p1 = [(next_frame_id q, a)]"
      "fired p1 = fired q"
      "\<bar>anim_diff a (columns p1 ! anim_col a)\<bar> < \<bar>anim_diff a (columns q ! anim_col a)\<bar>"
    by auto
  then show ?thesis
    by (simp add: frame_def assms(1))
qed

lemma animate_then_frames:
  assumes "settle n a c = Some (k, c')"
    and "frames p = []" and "anim_col a < length (columns p)"
    and "columns p ! anim_col a = c"
  shows "(case animate p a now of Inl h \<Rightarrow> Inl h
          | Inr p1 \<Rightarrow> run p1 (replicate (k - 1) (Frame now))) =
     onDateChange (p\<lparr>next_frame_id := next_frame_id p + (k - 1),
                     columns := (columns p)[anim_col a := c']\<rparr>) now"
proof (cases n)
  case 0
  with assms(1) show ?thesis by simp
next
  case (Suc m)
  show ?thesis
  proof (cases "animate_col a c")
    case (Settled c1)
    with assms(1) Suc have k: "k = 1" "c' = c1" by simp_all
    have "animate p a now = onDateChange (p\<lparr>columns := (columns p)[anim_col a := c1]\<rparr>) now"
      using Settled assms(3,4) by (simp add: animate_def)
    then show ?thesis
      by (simp add: k split: sum.splits)
  next
    case (Scheduled c1)
    with assms(1) Suc obtain k' where k': "settle m a c1 = Some (k', c')" "k = Suc k'"
      by auto
    from settle_final[OF k'(1)] have pos: "1 \<le> k'" by simp
    define p1 where "p1 = requestAnimationFrame a (p\<lparr>columns := (columns p)[anim_col a := c1]\<rparr>)"
    have an: "animate p a now = Inr p1"
      using Scheduled assms(3,4) by (simp add: animate_def p1_def)
    have fr: "frames p1 = [(next_frame_id p, a)]"
      by (simp add: p1_def requestAnimationFrame_def assms(2))
    have "run p1 (replicate k' (Frame now)) =
       onDateChange (p1\<lparr>frames := [], next_frame_id := next_frame_id p1 + (k' - 1),
                     columns := (columns p1)[anim_col a := c']\<rparr>) now"
      using k'(1) fr by (rule frames_follow_settle) (simp_all add: p1_def assms(3))
    moreover have "p1\<lparr>frames := [], next_frame_id := next_frame_id p1 + (k' - 1),
                     columns := (columns p1)[anim_col a := c']\<rparr>
        = p\<lparr>next_frame_id := next_frame_id p + (k - 1),
                     columns := (columns p)[anim_col a := c']\<rparr>"
      using pos assms(2) by (simp add: p1_def k'(2) requestAnimationFrame_def)
    ultimately show ?thesis
      using an by (simp add: k'(2))
  qed
qed

lemma onDateChange_frames:
  "onDateChange p now = Inr r \<Longrightarrow> frames r = frames p"
  by (auto simp: onDateChange_Inr updateColumns_def Let_def split: if_splits option.splits)

lemma settle_result:
  "settle n a c = Some (k, c') \<Longrightarrow>
   c' = c\<lparr>scrollTop := nearestScrollTop a, selectedIndex := nearestIndex a\<rparr>"
proof (induction n arbitrary: c k)
  case 0
  then show ?case by simp
next
  case (Suc n)
  show ?case
  proof (cases "animate_col a c")
    case (Settled c1)
    with Suc.prems show ?thesis
      by (auto simp: animate_col_Settled)
  next
    case (Scheduled c1)
    with Suc.prems obtain k' where k': "settle n a c1 = Some (k', c')"
      by auto
    from Suc.IH[OF k'] Scheduled show ?thesis
      by (auto simp: animate_col_Scheduled)
  qed
qed

section \<open>Handler variables, and the day column after a month or year change\<close>

lemma updateColumns_trackers: "updateColumns p = Inr p' \<Longrightarrow> trackers p' = trackers p"
  by (auto simp: updateColumns_def Let_def split: if_splits option.splits)

lemma onDateChange_trackers: "onDateChange p now = Inr p' \<Longrightarrow> trackers p' = trackers p"
  by (auto simp: onDateChange_Inr dest: updateColumns_trackers)

lemma animate_trackers: "animate p a now = Inr p' \<Longrightarrow> trackers p' = trackers p"
  by (auto simp: animate_def split: if_splits anim_step.splits dest: onDateChange_trackers)

lemma run_callbacks_trackers: "run_callbacks cbs now p = Inr p' \<Longrightarrow> trackers p' = trackers p"
proof (induction cbs arbitrary: p)
  case Nil
  then show ?case by simp
next
  case (Cons cb cbs)
  then obtain p1 where p1: "animate p (snd cb) now = Inr p1" "run_callbacks cbs now p1 = Inr p'"
    by (auto split: sum.splits)
  from Cons.IH[OF p1(2)] animate_trackers[OF p1(1)] show ?case by simp
qed

lemma frame_trackers: "frame p now = Inr p' \<Longrightarrow> trackers p' = trackers p"
  by (auto simp: frame_def dest: run_callbacks_trackers)

lemma handleEnd_trackers: "handleEnd p ci now = Inr p' \<Longrightarrow> trackers p' = trackers p"
  by (auto simp: handleEnd_def animateToNearest_def Let_def split: if_splits dest: animate_trackers)

lemma mouseleave_trackers: "mouseleave p ci now = Inr p' \<Longrightarrow> trackers p' = trackers p"
  by (auto simp: mouseleave_def split: if_splits dest: handleEnd_trackers)

lemma setDate_trackers: "setDate p d = Inr p' \<Longrightarrow> trackers p' = trackers p"
  by (auto simp: setDate_def Let_def split: if_splits dest!: updateColumns_trackers)

lemma handleStart_no_momentum_id:
  assumes "handleStart p ci y t = Inr p'" "no_momentum_id p"
  shows "no_momentum_id p'"
proof -
  from assms(2) have "momentumId (trackers p ! ci) = None" if "ci < length (trackers p)"
    using that by (simp add: no_momentum_id_def)
  with assms show ?thesis
    by (auto simp: handleStart_def Let_def no_momentum_id_def split: if_splits
        dest!: set_update_subset_insert[THEN subsetD])
qed

lemma handleMove_no_momentum_id:
  assumes "handleMove p ci y t = Inr p'" "no_momentum_id p"
  shows "no_momentum_id p'"
proof -
  from assms(2) have "momentumId (trackers p ! ci) = None" if "ci < length (trackers p)"
    using that by (simp add: no_momentum_id_def)
  with assms show ?thesis
    by (auto simp: handleMove_def Let_def no_momentum_id_def split: if_splits
        dest!: set_update_subset_insert[THEN subsetD])
qed

lemma step_no_momentum_id:
  assumes "step p e = Inr p'" "no_momentum_id p"
  shows "no_momentum_id p'"
proof (cases e)
  case (Start ci y t)
  with assms show ?thesis by (auto dest: handleStart_no_momentum_id)
next
  case (Move ci y t)
  with assms show ?thesis by (auto dest: handleMove_no_momentum_id)
next
  case (End ci now)
  with assms show ?thesis by (auto simp: no_momentum_id_def dest: handleEnd_trackers)
next
  case (Leave ci now)
  with assms show ?thesis by (auto simp: no_momentum_id_def dest: mouseleave_trackers)
next
  case (Frame now)
  with assms show ?thesis by (auto simp: no_momentum_id_def dest: frame_trackers)
next
  case (SetDate d)
  with assms show ?thesis by (auto simp: no_momentum_id_def dest: setDate_trackers)
qed

lemma run_no_momentum_id:
  "run p es = Inr p' \<Longrightarrow> no_momentum_id p \<Longrightarrow> no_momentum_id p'"
proof (induction es arbitrary: p)
  case Nil
  then show ?case by simp
next
  case (Cons e es)
  then obtain p1 where p1: "step p e = Inr p1" "run p1 es = Inr p'"
    by (auto split: sum.splits)
  from Cons.IH[OF p1(2)] step_no_momentum_id[OF p1(1) Cons.prems(2)] show ?case by simp
qed

lemma new_WheelPicker_no_momentum_id:
  "new_WheelPicker opts = Inr p \<Longrightarrow> no_momentum_id p"
proof -
  assume "new_WheelPicker opts = Inr p"
  then have "updateColumns (render opts) = Inr p"
    by (simp add: new_WheelPicker_def split: if_splits)
  from updateColumns_trackers[OF this] show ?thesis
    by (auto simp: no_momentum_id_def render_def Let_def new_tracker_def)
qed

lemma drag_start_never_cancels:
  assumes "session opts es = Inr p" and "handleStart p ci y t = Inr p'"
  shows "frames p' = frames p"
proof -
  from assms(1) obtain p0 where "new_WheelPicker opts = Inr p0" "run p0 es = Inr p"
    by (auto simp: session_def split: sum.splits)
  then have "no_momentum_id p"
    using run_no_momentum_id new_WheelPicker_no_momentum_id by blast
  then have "momentumId (trackers p ! ci) = None" if "ci < length (trackers p)"
    using that by (simp add: no_momentum_id_def)
  with assms(2) show ?thesis
    by (auto simp: handleStart_def Let_def split: if_splits)
qed

lemma daysInMonth_examples:
  "daysInMonth (Num 2024) 1 = Some 29 \<and> daysInMonth (Num 2023) 1 = Some 28
   \<and> daysInMonth (Num 2023) 3 = Some 30 \<and> daysInMonth (Num 2023) 0 = Some 31"
  by (simp add: daysInMonth_Num month_len_def effective_year_def leap_year_def)

lemma updateColumns_regenerates:
  assumes "fmt p \<noteq> FTime" and "3 \<le> length (columns p)"
    and "selectedValue p 2 = Num y"
    and "0 \<le> selectedIndex (columns p ! 0)" "selectedIndex (columns p ! 0) \<le> 11"
    and "selectedValue p 1 = Num v" and "1 \<le> v"
    and "n = month_len (effective_year y) (selectedIndex (columns p ! 0))"
  shows "\<exists>p'. updateColumns p = Inr p'
     \<and> int (length (col_values (columns p' ! 1))) = n
     \<and> columns p' ! 0 = columns p ! 0 \<and> columns p' ! 2 = columns p ! 2
     \<and> (int (length (col_values (columns p ! 1))) \<noteq> n \<longrightarrow>
          col_values (columns p' ! 1) = map (\<lambda>i. Num (int i + 1)) [0 ..< nat n]
          \<and> selectedValue p' 1 = Num (min v n))"
proof -
  have dim: "daysInMonth (js_nth (col_values (columns p ! 2)) (selectedIndex (columns p ! 2)))
                (selectedIndex (columns p ! 0)) = Some n"
    using assms(3,4,5,8) by (simp add: selectedValue_def daysInMonth_Num)
  have n: "28 \<le> n" "n \<le> 31"
    by (simp_all add: assms(8) month_len_def)
  have cur: "js_nth (col_values (columns p ! 1)) (selectedIndex (columns p ! 1)) = Num v"
    using assms(6) by (simp add: selectedValue_def)
  have fm: "fmt p = FDate \<or> fmt p = FDateTime"
    using assms(1) by (cases "fmt p") simp_all
  show ?thesis
  proof (cases "int (length (col_values (columns p ! 1))) = n")
    case True
    with fm assms(2) dim show ?thesis
      by (simp add: updateColumns_def Let_def)
  next
    case False
    define sel where "sel = (if v \<le> n then v - 1 else n - 1)"
    have sel: "0 \<le> sel" "sel < n" "sel + 1 = min v n"
      using assms(7) n by (auto simp: sel_def)
    define p' where "p' = p\<lparr>columns := (columns p)
        [1 := (columns p ! 1)\<lparr>col_values := map (\<lambda>i. Num (int i + 1)) [0 ..< nat n],
                               selectedIndex := sel, scrollTop := of_int sel * itemHeight\<rparr>]\<rparr>"
    have "updateColumns p = Inr p'"
      using fm assms(2,7) dim False cur
      by (auto simp: updateColumns_def Let_def p'_def sel_def)
    moreover have "js_nth (map (\<lambda>i. Num (int i + 1)) [0 ..< nat n]) sel = Num (min v n)"
      using sel n by (simp add: js_nth_def)
    ultimately show ?thesis
      using assms(2) n by (auto simp: p'_def selectedValue_def)
  qed
qed

section \<open>A flick of the day column overtaken by setDate\<close>

lemma after_setDate:
  "session (demo_options FDate (ymd 2023 0 15)) flick_then_setDate =
     Inr ((date_picker 1 28 9 360 (Some (ymd 2023 1 10)) [])
           \<lparr>frames := [(0, stale_anim)], next_frame_id := 1,
            trackers := [new_tracker, \<lparr>startY = 0, startScrollTop = 560, momentumId = None, lastY = - 620,
                  lastTime = 100, velocity = 31 / 5\<rparr>, new_tracker]\<rparr>)"
  by code_simp

lemma stale_settles:
  "settle 47 stale_anim (columns (date_picker 1 28 9 360 (Some (ymd 2023 1 10)) []) ! 1)
     = Some (47, (columns (date_picker 1 28 9 360 (Some (ymd 2023 1 10)) []) ! 1)\<lparr>scrollTop := 1200, selectedIndex := 30\<rparr>)"
proof -
  let ?c = "columns (date_picker 1 28 9 360 (Some (ymd 2023 1 10)) []) ! 1"
  have d: "\<bar>anim_diff stale_anim ?c\<bar> = 840"
    by (simp add: anim_diff_def stale_anim_def date_picker_def)
  have low: "1 / 2 \<le> (840::real) * (17 / 20) ^ j" if "j < 46" for j
  proof -
    from that have "((17::real) / 20) ^ 45 \<le> (17 / 20) ^ j"
      by (intro power_decreasing) simp_all
    moreover have "1 / 2 \<le> (840::real) * (17 / 20) ^ 45"
      by (simp add: power_divide)
    ultimately show ?thesis
      using mult_left_mono[of "(17 / 20) ^ 45" "(17 / 20) ^ j" "840::real"] by linarith
  qed
  have high: "(840::real) * (17 / 20) ^ 46 < 1 / 2"
    by (simp add: power_divide)
  have h1: "\<forall>j<46. 1 / 2 \<le> \<bar>anim_diff stale_anim ?c\<bar> * (17 / 20) ^ j"
    unfolding d using low by blast
  have h2: "\<bar>anim_diff stale_anim ?c\<bar> * (17 / 20) ^ 46 < 1 / 2"
    unfolding d by (rule high)
  from settle_after[OF h1 h2, of 0] show ?thesis
    by (simp add: stale_anim_def)
qed

lemma step_fired:
  assumes "step q e = Inr q'" and "fired q' \<noteq> fired q"
  shows "(\<exists>ci now. e = End ci now \<or> e = Leave ci now) \<or> (\<exists>now. e = Frame now)"
proof (cases e)
  case (Start ci y t)
  with assms show ?thesis using handleStart_fired[of q ci y t q'] by simp
next
  case (Move ci y t)
  with assms show ?thesis using handleMove_fired[of q ci y t q'] by simp
next
  case (SetDate d)
  with assms show ?thesis using setDate_fired[of q d q'] by simp
qed auto

lemma constructed:
  "new_WheelPicker (demo_options FDate (ymd 2023 0 15)) = Inr jan15"
  by code_simp

section \<open>Composing the Date after a month change\<close>

text \<open>
  Claim C1: whenever a month or year change invalidates the selected day, the day column is
  regenerated and the selection remapped before any Date is composed, so that no Date built
  from an invalid (month, day, year) reaches \<^verbatim>\<open>onChange\<close> or \<^verbatim>\<open>getDate\<close>.

  The source composes first: \<^verbatim>\<open>onDateChange\<close> reads the day column, builds the Date, stores
  it, and only then calls \<^verbatim>\<open>updateColumns\<close>. On a picker showing 31 January 2023, moving the
  month column one slot to February composes \<^verbatim>\<open>new Date(2023, 1, 31)\<close>, which is 3 March
  2023. That Date is handed to \<^verbatim>\<open>onChange\<close> and returned by \<^verbatim>\<open>getDate\<close>, while the columns
  end on February, 28, 2023.
\<close>

theorem month_change_composes_stale_day:
  "outcome (session (demo_options FDate (ymd 2023 0 31))
             [Start 0 100 0, Move 0 60 0, End 0 (ymd 2023 5 5)])
     = Inr ([Str ''February'', Num 28, Num 2023], Some (ymd 2023 2 3), [Some (ymd 2023 2 3)])"
  by code_simp

section \<open>When onChange fires\<close>

text \<open>
  Claim C2: \<^verbatim>\<open>onChange\<close> fires exactly once per committed selection change that alters the
  composed Date, and never during a live drag or an intermediate animation step; a drag
  that starts and ends with no velocity and no displacement leaves the selected index and
  the composed Date unchanged and fires \<^verbatim>\<open>onChange\<close> zero times.

  The terminal step of \<^verbatim>\<open>animate\<close> calls \<^verbatim>\<open>onDateChange\<close>, and \<^verbatim>\<open>onDateChange\<close> calls
  \<^verbatim>\<open>onChange\<close>, without looking at the Date before. The picker constructed on 15 January
  2023 shows January, 15, 2023 and has fired nothing; pressing the month column, moving the
  pointer by nothing and releasing leaves the selections and the Date as they were and
  fires \<^verbatim>\<open>onChange\<close> once, with that same Date.
\<close>

theorem still_drag_fires_onChange:
  "outcome (session (demo_options FDate (ymd 2023 0 15)) [])
     = Inr ([Str ''January'', Num 15, Num 2023], Some (ymd 2023 0 15), [])
   \<and> outcome (session (demo_options FDate (ymd 2023 0 15))
             [Start 0 100 0, Move 0 100 5, End 0 (ymd 2023 5 5)])
     = Inr ([Str ''January'', Num 15, Num 2023], Some (ymd 2023 0 15), [Some (ymd 2023 0 15)])"
  by (intro conjI; code_simp)

section \<open>Starting a drag while an animation is in flight\<close>

text \<open>
  Claim C3: starting a drag on a column cancels the momentum animation in flight for that
  column at once, so that no step of it runs after the drag has started.

  The handler cancels the frame whose id is in \<^verbatim>\<open>momentumId\<close>, but nothing ever stores an id
  there: the value \<^verbatim>\<open>requestAnimationFrame\<close> returns is dropped. On the picker showing 15
  January 2023 the day column is released at offset 610 with an animation towards index 16
  in flight (offset 614.5 after its first step). A new press on the day column leaves that
  animation queued, and the next frame moves the held column on to 618.325. In every state
  a picker can reach, a drag start leaves the queued callbacks as they are
  (\<open>drag_start_never_cancels\<close>).
\<close>

theorem drag_start_keeps_animation:
  "motion 1 (session (demo_options FDate (ymd 2023 0 15))
              [Start 1 100 0, Move 1 50 100, End 1 (ymd 2023 5 5)])
     = Inr (1229 / 2, False, [snap16])
   \<and> motion 1 (session (demo_options FDate (ymd 2023 0 15))
              [Start 1 100 0, Move 1 50 100, End 1 (ymd 2023 5 5), Start 1 200 200])
     = Inr (1229 / 2, True, [snap16])
   \<and> motion 1 (session (demo_options FDate (ymd 2023 0 15))
              [Start 1 100 0, Move 1 50 100, End 1 (ymd 2023 5 5), Start 1 200 200,
               Frame (ymd 2023 5 5)])
     = Inr (24733 / 40, True, [snap16])"
  by (intro conjI; code_simp)

section \<open>Regenerating the day column\<close>

text \<open>
  Claim C4: after any month or year change the day column has as many entries as the month
  has days, and the day selected afterwards is the day selected before if it still exists,
  else the largest day not above it.

  \<^verbatim>\<open>setDate\<close> writes the new day index into the old day column before \<^verbatim>\<open>updateColumns\<close>
  regenerates it. When the new month is longer and the index lies beyond the old column,
  \<^verbatim>\<open>updateColumns\<close> reads \<^verbatim>\<open>undefined\<close> as the current day and selects the last day of the
  month: on the picker showing 10 February 2023, \<^verbatim>\<open>setDate\<close> of 30 March 2023 leaves the
  columns on March, 31, 2023, while \<^verbatim>\<open>getDate\<close> returns 30 March. On a day column whose
  selected index is valid, \<^verbatim>\<open>updateColumns\<close> does select the smaller of the previous day and
  the month's length (\<open>updateColumns_regenerates\<close>).
\<close>

theorem setDate_into_longer_month:
  "outcome (session (demo_options FDate (ymd 2023 1 10)) [SetDate (ymd 2023 2 30)])
     = Inr ([Str ''March'', Num 31, Num 2023], Some (ymd 2023 2 30), [])"
  by code_simp

section \<open>The snap target and the terminal step\<close>

text \<open>
  Claim C5: for a column with \<open>N\<close> values (at least one) and any requested target \<open>t\<close>, the
  animator clamps \<open>t\<close> into \<open>[0, (N - 1) * itemHeight]\<close>: a target below 0 becomes 0, a target
  above the upper bound becomes the upper bound, any other target is kept. It takes
  \<open>nearestIndex = round (clampedTarget / itemHeight)\<close>, the integer within half a slot of the
  clamped target (halves upwards), a valid index whose offset
  \<open>nearestOffset = nearestIndex * itemHeight\<close> is at least as close to the clamped target
  as the offset of any other index. Its terminal step, taken when the offset is less than
  half a pixel from \<open>nearestOffset\<close>, sets the column's offset to \<open>nearestOffset\<close> and its
  selected index to \<open>nearestIndex\<close>; the picker after that step shows both, for every
  column that \<^verbatim>\<open>updateColumns\<close> does not regenerate in the same step.
\<close>

theorem animateToNearest_snaps:
  assumes "ci < length (columns p)" and "col_values (columns p ! ci) \<noteq> []"
    and "a = nearest ci (columns p ! ci) t"
  shows "clampedTarget (columns p ! ci) t =
       (if t < 0 then 0
        else if (real (length (col_values (columns p ! ci))) - 1) * itemHeight < t
             then (real (length (col_values (columns p ! ci))) - 1) * itemHeight
        else t)
     \<and> 0 \<le> clampedTarget (columns p ! ci) t
     \<and> clampedTarget (columns p ! ci) t \<le> (real (length (col_values (columns p ! ci))) - 1) * itemHeight
     \<and> nearestIndex a = Math_round (clampedTarget (columns p ! ci) t / itemHeight)
     \<and> of_int (nearestIndex a) - 1 / 2 \<le> clampedTarget (columns p ! ci) t / itemHeight
     \<and> clampedTarget (columns p ! ci) t / itemHeight < of_int (nearestIndex a) + 1 / 2
     \<and> (\<forall>j. \<bar>nearestScrollTop a - clampedTarget (columns p ! ci) t\<bar>
              \<le> \<bar>of_int j * itemHeight - clampedTarget (columns p ! ci) t\<bar>)
     \<and> 0 \<le> nearestIndex a \<and> nearestIndex a < int (length (col_values (columns p ! ci)))
     \<and> nearestScrollTop a = of_int (nearestIndex a) * itemHeight
     \<and> anim_col a = ci
     \<and> animateToNearest p ci t now = animate p a now
     \<and> (\<bar>anim_diff a c\<bar> < 1 / 2 \<longrightarrow>
          animate_col a c = Settled (c\<lparr>scrollTop := nearestScrollTop a, selectedIndex := nearestIndex a\<rparr>))
     \<and> (animate q a now' = Inr q' \<and> \<bar>anim_diff a (columns q ! ci)\<bar> < 1 / 2
          \<and> (ci \<noteq> 1 \<or> day_column_current q) \<longrightarrow>
          scrollTop (columns q' ! ci) = nearestScrollTop a
          \<and> selectedIndex (columns q' ! ci) = nearestIndex a)"
proof -
  have col: "anim_col a = ci" by (simp add: assms(3) nearest_def Let_def)
  have fin: "animate q a now' = Inr q' \<and> \<bar>anim_diff a (columns q ! ci)\<bar> < 1 / 2
          \<and> (ci \<noteq> 1 \<or> day_column_current q) \<longrightarrow>
          scrollTop (columns q' ! ci) = nearestScrollTop a
          \<and> selectedIndex (columns q' ! ci) = nearestIndex a"
    using animate_terminal_column[of q a now' q'] col by auto
  have start: "animateToNearest p ci t now = animate p a now"
    using assms(1,3) by (simp add: animateToNearest_def)
  have commit: "\<bar>anim_diff a c\<bar> < 1 / 2 \<longrightarrow>
          animate_col a c = Settled (c\<lparr>scrollTop := nearestScrollTop a, selectedIndex := nearestIndex a\<rparr>)"
    by (simp add: animate_col_Settled)
  have idx: "nearestIndex a = Math_round (clampedTarget (columns p ! ci) t / itemHeight)"
    and off: "nearestScrollTop a = of_int (nearestIndex a) * itemHeight"
    by (simp_all add: assms(3) nearest_def Let_def)
  have iv: "of_int (nearestIndex a) - 1 / 2 \<le> clampedTarget (columns p ! ci) t / itemHeight"
      "clampedTarget (columns p ! ci) t / itemHeight < of_int (nearestIndex a) + 1 / 2"
    using Math_round_interval[of "clampedTarget (columns p ! ci) t / itemHeight"]
    by (simp_all add: idx)
  have near: "\<forall>j. \<bar>nearestScrollTop a - clampedTarget (columns p ! ci) t\<bar>
              \<le> \<bar>of_int j * itemHeight - clampedTarget (columns p ! ci) t\<bar>"
    unfolding assms(3) using nearest_is_nearest by blast
  have rng: "0 \<le> nearestIndex a" "nearestIndex a < int (length (col_values (columns p ! ci)))"
    unfolding assms(3) by (rule nearestIndex_range[OF assms(2)])+
  show ?thesis
    using clampedTarget_cases[OF assms(2), of t] clampedTarget_bounds[OF assms(2), of t]
      fin start commit idx off iv near rng col
    by blast
qed

text \<open>
  The statement above for the day column of the picker showing 15 January 2023: the target
  620 is kept and gives index 16 at offset 640, committed by the step taken at offset
  639.75; the target 1304 is clamped to 1200 and gives index 30; the target -50 is clamped
  to 0.
\<close>

theorem animateToNearest_snaps_witness:
  "1 < length (columns jan15) \<and> col_values (columns jan15 ! 1) \<noteq> []
   \<and> snap16 = nearest 1 (columns jan15 ! 1) 620
   \<and> stale_anim = nearest 1 (columns jan15 ! 1) 1304
   \<and> \<bar>anim_diff snap16 (columns near16 ! 1)\<bar> < 1 / 2
   \<and> animate near16 snap16 (ymd 2023 5 5) = Inr on17
   \<and> day_column_current near16
   \<and> clampedTarget (columns jan15 ! 1) 620 = 620
   \<and> clampedTarget (columns jan15 ! 1) 1304 = 1200
   \<and> clampedTarget (columns jan15 ! 1) (- 50) = 0
   \<and> nearestIndex snap16 = 16 \<and> nearestIndex stale_anim = 30
   \<and> animate_col snap16 (columns near16 ! 1)
       = Settled ((columns near16 ! 1)\<lparr>scrollTop := nearestScrollTop snap16,
                                        selectedIndex := nearestIndex snap16\<rparr>)
   \<and> scrollTop (columns on17 ! 1) = nearestScrollTop snap16
   \<and> selectedIndex (columns on17 ! 1) = nearestIndex snap16"
proof -
  have h1: "1 < length (columns jan15)" by code_simp
  have h2: "col_values (columns jan15 ! 1) \<noteq> []" by code_simp
  have h3: "snap16 = nearest 1 (columns jan15 ! 1) 620" by code_simp
  have h3': "stale_anim = nearest 1 (columns jan15 ! 1) 1304" by code_simp
  have h4: "\<bar>anim_diff snap16 (columns near16 ! 1)\<bar> < 1 / 2" by code_simp
  have h5: "animate near16 snap16 (ymd 2023 5 5) = Inr on17" by code_simp
  have h6: "day_column_current near16" by code_simp
  have len: "length (col_values (columns jan15 ! 1)) = 31" by code_simp
  note inst = animateToNearest_snaps[OF h1 h2 h3, where c = "columns near16 ! 1" and q = near16
      and now' = "ymd 2023 5 5" and q' = on17]
  note high = animateToNearest_snaps[OF h1 h2 h3']
  note low = animateToNearest_snaps[OF h1 h2 refl, of "- 50"]
  have c1: "clampedTarget (columns jan15 ! 1) 620 = 620"
    using inst[THEN conjunct1] unfolding len itemHeight_def by simp
  have c2: "clampedTarget (columns jan15 ! 1) 1304 = 1200"
    using high[THEN conjunct1] unfolding len itemHeight_def by simp
  have c3: "clampedTarget (columns jan15 ! 1) (- 50) = 0"
    using low[THEN conjunct1] unfolding len itemHeight_def by simp
  have i1: "nearestIndex snap16 = 16" and i2: "nearestIndex stale_anim = 30"
    by (simp_all add: snap16_def stale_anim_def)
  from inst h4 h5 h6 h1 h2 h3 h3' c1 c2 c3 i1 i2 show ?thesis by blast
qed

section \<open>Termination of the settle loop\<close>

text \<open>
  Claim C6: the settle loop of an animation that runs alone, started by \<^verbatim>\<open>animate\<close> on a
  picker with nothing queued and continued by the animation frames, strictly decreases the
  absolute difference to the snap target on every non-terminal step, each of which moves
  the offset by 0.15 of the remaining difference, fires nothing and queues the next step.
  After at most \<open>settle_bound\<close> steps the loop has taken its terminal step, which commits
  the snap target, runs \<^verbatim>\<open>onDateChange\<close> once and queues nothing. A zero initial difference
  settles on the first step without changing the offset.
\<close>

theorem settle_loop_terminates:
  "(frames p = [] \<and> anim_col a < length (columns p) \<longrightarrow>
      (\<exists>k. 1 \<le> k \<and> k \<le> settle_bound a (columns p ! anim_col a)
         \<and> (case animate p a now of Inl h \<Rightarrow> Inl h
             | Inr p1 \<Rightarrow> run p1 (replicate (k - 1) (Frame now)))
           = onDateChange
               (p\<lparr>next_frame_id := next_frame_id p + (k - 1),
                  columns := (columns p)
                    [anim_col a := (columns p ! anim_col a)
                       \<lparr>scrollTop := nearestScrollTop a, selectedIndex := nearestIndex a\<rparr>]\<rparr>)
               now))
   \<and> (anim_col a < length (columns s) \<and> 1 / 2 \<le> \<bar>anim_diff a (columns s ! anim_col a)\<bar> \<longrightarrow>
        (\<exists>s1. animate s a now = Inr s1
           \<and> frames s1 = frames s @ [(next_frame_id s, a)] \<and> fired s1 = fired s
           \<and> \<bar>anim_diff a (columns s1 ! anim_col a)\<bar> < \<bar>anim_diff a (columns s ! anim_col a)\<bar>))
   \<and> (frames q = [(i, a)] \<and> anim_col a < length (columns q)
        \<and> 1 / 2 \<le> \<bar>anim_diff a (columns q ! anim_col a)\<bar> \<longrightarrow>
        (\<exists>q1. frame q now = Inr q1
           \<and> frames q1 = [(next_frame_id q, a)] \<and> fired q1 = fired q
           \<and> \<bar>anim_diff a (columns q1 ! anim_col a)\<bar> < \<bar>anim_diff a (columns q ! anim_col a)\<bar>))
   \<and> (anim_col a < length (columns z) \<and> anim_diff a (columns z ! anim_col a) = 0 \<longrightarrow>
        animate z a now
          = onDateChange
              (z\<lparr>columns := (columns z)
                  [anim_col a := (columns z ! anim_col a)\<lparr>selectedIndex := nearestIndex a\<rparr>]\<rparr>)
              now)
   \<and> (onDateChange r now = Inr r' \<longrightarrow>
        frames r' = frames r \<and> fired r' = fired r @ [currentDate r'])"
proof (intro conjI impI)
  assume h: "frames p = [] \<and> anim_col a < length (columns p)"
  define c where "c = columns p ! anim_col a"
  obtain k c' where s: "settle (settle_bound a c) a c = Some (k, c')" "k \<le> settle_bound a c" "1 \<le> k"
    using settle_within[of a c "nat \<lceil>14 * \<bar>anim_diff a c\<bar>\<rceil>"] by (auto simp: settle_bound_def)
  have c': "c' = c\<lparr>scrollTop := nearestScrollTop a, selectedIndex := nearestIndex a\<rparr>"
    by (rule settle_result[OF s(1)])
  have "(case animate p a now of Inl h \<Rightarrow> Inl h
          | Inr p1 \<Rightarrow> run p1 (replicate (k - 1) (Frame now))) =
     onDateChange (p\<lparr>next_frame_id := next_frame_id p + (k - 1),
                     columns := (columns p)[anim_col a := c']\<rparr>) now"
    using s(1) h by (intro animate_then_frames) (simp_all add: c_def)
  with s(2,3) show "\<exists>k. 1 \<le> k \<and> k \<le> settle_bound a (columns p ! anim_col a)
         \<and> (case animate p a now of Inl h \<Rightarrow> Inl h
             | Inr p1 \<Rightarrow> run p1 (replicate (k - 1) (Frame now)))
           = onDateChange
               (p\<lparr>next_frame_id := next_frame_id p + (k - 1),
                  columns := (columns p)
                    [anim_col a := (columns p ! anim_col a)
                       \<lparr>scrollTop := nearestScrollTop a, selectedIndex := nearestIndex a\<rparr>]\<rparr>)
               now"
    unfolding c' c_def by blast
next
  assume "anim_col a < length (columns s) \<and> 1 / 2 \<le> \<bar>anim_diff a (columns s ! anim_col a)\<bar>"
  then show "\<exists>s1. animate s a now = Inr s1
           \<and> frames s1 = frames s @ [(next_frame_id s, a)] \<and> fired s1 = fired s
           \<and> \<bar>anim_diff a (columns s1 ! anim_col a)\<bar> < \<bar>anim_diff a (columns s ! anim_col a)\<bar>"
    using animate_Scheduled[of a s now] by blast
next
  assume "frames q = [(i, a)] \<and> anim_col a < length (columns q)
        \<and> 1 / 2 \<le> \<bar>anim_diff a (columns q ! anim_col a)\<bar>"
  then show "\<exists>q1. frame q now = Inr q1
           \<and> frames q1 = [(next_frame_id q, a)] \<and> fired q1 = fired q
           \<and> \<bar>anim_diff a (columns q1 ! anim_col a)\<bar> < \<bar>anim_diff a (columns q ! anim_col a)\<bar>"
    using frame_Scheduled[of q i a now] by blast
next
  assume h: "anim_col a < length (columns z) \<and> anim_diff a (columns z ! anim_col a) = 0"
  define c where "c = columns z ! anim_col a"
  from h have eq: "nearestScrollTop a = scrollTop c"
    by (simp add: anim_diff_def c_def)
  from h have "animate_col a c = Settled (c\<lparr>scrollTop := nearestScrollTop a, selectedIndex := nearestIndex a\<rparr>)"
    by (simp add: animate_col_Settled c_def)
  moreover have "c\<lparr>scrollTop := nearestScrollTop a, selectedIndex := nearestIndex a\<rparr>
      = c\<lparr>selectedIndex := nearestIndex a\<rparr>"
    by (simp add: eq)
  ultimately have "animate_col a (columns z ! anim_col a) = Settled (c\<lparr>selectedIndex := nearestIndex a\<rparr>)"
    by (simp add: c_def)
  with h show "animate z a now
          = onDateChange
              (z\<lparr>columns := (columns z)
                  [anim_col a := (columns z ! anim_col a)\<lparr>selectedIndex := nearestIndex a\<rparr>]\<rparr>)
              now"
    by (simp add: animate_def c_def)
next
  assume "onDateChange r now = Inr r'"
  then show "frames r' = frames r" by (rule onDateChange_frames)
next
  assume "onDateChange r now = Inr r'"
  then show "fired r' = fired r @ [currentDate r']"
    using onDateChange_fired by blast
qed

text \<open>
  The statement above for the animation towards offset 640 on the day column: released at
  offset 610 the first step is not terminal and leaves the animation waiting for a frame,
  the next frame shortens the difference again, and at offset 640 the first step settles.
\<close>

theorem settle_loop_terminates_witness:
  "frames released = [] \<and> anim_col snap16 < length (columns released)
   \<and> 1 / 2 \<le> \<bar>anim_diff snap16 (columns released ! anim_col snap16)\<bar>
   \<and> frames in_flight = [(0, snap16)] \<and> anim_col snap16 < length (columns in_flight)
   \<and> 1 / 2 \<le> \<bar>anim_diff snap16 (columns in_flight ! anim_col snap16)\<bar>
   \<and> anim_col snap16 < length (columns on17) \<and> anim_diff snap16 (columns on17 ! anim_col snap16) = 0
   \<and> onDateChange jan15 (ymd 2023 5 5) = Inr jan15_fired
   \<and> (\<exists>k. 1 \<le> k \<and> k \<le> settle_bound snap16 (columns released ! anim_col snap16)
         \<and> (case animate released snap16 (ymd 2023 5 5) of Inl h \<Rightarrow> Inl h
             | Inr p1 \<Rightarrow> run p1 (replicate (k - 1) (Frame (ymd 2023 5 5))))
           = onDateChange
               (released\<lparr>next_frame_id := next_frame_id released + (k - 1),
                  columns := (columns released)
                    [anim_col snap16 := (columns released ! anim_col snap16)
                       \<lparr>scrollTop := nearestScrollTop snap16, selectedIndex := nearestIndex snap16\<rparr>]\<rparr>)
               (ymd 2023 5 5))
   \<and> animate released snap16 (ymd 2023 5 5) = Inr in_flight
   \<and> (\<exists>q1. frame in_flight (ymd 2023 5 5) = Inr q1
           \<and> frames q1 = [(next_frame_id in_flight, snap16)] \<and> fired q1 = fired in_flight
           \<and> \<bar>anim_diff snap16 (columns q1 ! anim_col snap16)\<bar>
               < \<bar>anim_diff snap16 (columns in_flight ! anim_col snap16)\<bar>)
   \<and> animate on17 snap16 (ymd 2023 5 5)
          = onDateChange
              (on17\<lparr>columns := (columns on17)
                  [anim_col snap16 := (columns on17 ! anim_col snap16)\<lparr>selectedIndex := nearestIndex snap16\<rparr>]\<rparr>)
              (ymd 2023 5 5)
   \<and> frames jan15_fired = frames jan15
   \<and> fired jan15_fired = fired jan15 @ [currentDate jan15_fired]"
proof -
  have h1: "frames released = [] \<and> anim_col snap16 < length (columns released)" by code_simp
  have h2: "anim_col snap16 < length (columns released)
     \<and> 1 / 2 \<le> \<bar>anim_diff snap16 (columns released ! anim_col snap16)\<bar>" by code_simp
  have h3: "frames in_flight = [(0, snap16)] \<and> anim_col snap16 < length (columns in_flight)
        \<and> 1 / 2 \<le> \<bar>anim_diff snap16 (columns in_flight ! anim_col snap16)\<bar>" by code_simp
  have h4: "anim_col snap16 < length (columns on17) \<and> anim_diff snap16 (columns on17 ! anim_col snap16) = 0"
    by code_simp
  have h5: "onDateChange jan15 (ymd 2023 5 5) = Inr jan15_fired" by code_simp
  have h6: "animate released snap16 (ymd 2023 5 5) = Inr in_flight" by code_simp
  note inst = settle_loop_terminates[where p = released and a = snap16 and now = "ymd 2023 5 5"
      and s = released and q = in_flight and i = 0 and z = on17 and r = jan15 and r' = jan15_fired]
  from inst h1 have c1: "\<exists>k. 1 \<le> k \<and> k \<le> settle_bound snap16 (columns released ! anim_col snap16)
         \<and> (case animate released snap16 (ymd 2023 5 5) of Inl h \<Rightarrow> Inl h
             | Inr p1 \<Rightarrow> run p1 (replicate (k - 1) (Frame (ymd 2023 5 5))))
           = onDateChange
               (released\<lparr>next_frame_id := next_frame_id released + (k - 1),
                  columns := (columns released)
                    [anim_col snap16 := (columns released ! anim_col snap16)
                       \<lparr>scrollTop := nearestScrollTop snap16, selectedIndex := nearestIndex snap16\<rparr>]\<rparr>)
               (ymd 2023 5 5)"
    by blast
  from inst h3 have c3: "\<exists>q1. frame in_flight (ymd 2023 5 5) = Inr q1
           \<and> frames q1 = [(next_frame_id in_flight, snap16)] \<and> fired q1 = fired in_flight
           \<and> \<bar>anim_diff snap16 (columns q1 ! anim_col snap16)\<bar>
               < \<bar>anim_diff snap16 (columns in_flight ! anim_col snap16)\<bar>"
    by blast
  from inst h4 have c4: "animate on17 snap16 (ymd 2023 5 5)
          = onDateChange
              (on17\<lparr>columns := (columns on17)
                  [anim_col snap16 := (columns on17 ! anim_col snap16)\<lparr>selectedIndex := nearestIndex snap16\<rparr>]\<rparr>)
              (ymd 2023 5 5)"
    by blast
  from inst h5 have c5: "frames jan15_fired = frames jan15
      \<and> fired jan15_fired = fired jan15 @ [currentDate jan15_fired]"
    by blast
  from h1 h2 h3 h4 h5 h6 c1 c3 c4 c5 show ?thesis by blast
qed

section \<open>The render projection\<close>

text \<open>
  Claim C7: for a positive item height the projection of an item is the function
  \<open>translateY = index * itemHeight - scrollOffset\<close>,
  \<open>distance = \<bar>translateY - itemHeight * (visibleItemCount - 1) / 2\<bar>\<close>,
  \<open>scale = max 0.7 (1 - distance / (itemHeight * 3))\<close>,
  \<open>opacity = max 0.3 (1 - distance / (itemHeight * 2.5))\<close>, centre slot when
  \<open>distance < itemHeight / 2\<close>. At the exact centre scale and opacity are 1 and the item is
  in the centre slot; from distance \<open>3 * itemHeight\<close> on the scale is 0.7; from distance
  \<open>2.5 * itemHeight\<close> on the opacity is 0.3. \<^verbatim>\<open>updateColumnTransform\<close> applies this function
  to every item of the column with the picker's item height and visible-item count.
\<close>

theorem project_formula:
  assumes "0 < ih"
  shows "translateY (project ih vis i s) = real i * ih - s
     \<and> scale (project ih vis i s) = max (7 / 10) (1 - item_distance ih vis i s / (ih * 3))
     \<and> opacity (project ih vis i s) = max (3 / 10) (1 - item_distance ih vis i s / (ih * (5 / 2)))
     \<and> selected (project ih vis i s) = (item_distance ih vis i s < ih / 2)
     \<and> item_distance ih vis i s = \<bar>translateY (project ih vis i s) - ih * (vis - 1) / 2\<bar>
     \<and> (item_distance ih vis i1 s1 = 0 \<longrightarrow>
          scale (project ih vis i1 s1) = 1 \<and> opacity (project ih vis i1 s1) = 1
          \<and> selected (project ih vis i1 s1))
     \<and> (3 * ih \<le> item_distance ih vis i2 s2 \<longrightarrow> scale (project ih vis i2 s2) = 7 / 10)
     \<and> (5 / 2 * ih \<le> item_distance ih vis i3 s3 \<longrightarrow> opacity (project ih vis i3 s3) = 3 / 10)
     \<and> (i4 < length (col_values (columns p ! ci)) \<longrightarrow>
          updateColumnTransform p ci ! i4
            = project itemHeight visibleItems i4 (scrollTop (columns p ! ci)))"
proof -
  have sc: "scale (project ih vis j t) = max (7 / 10) (1 - item_distance ih vis j t / (ih * 3))"
    and op: "opacity (project ih vis j t) = max (3 / 10) (1 - item_distance ih vis j t / (ih * (5 / 2)))"
    and se: "selected (project ih vis j t) = (item_distance ih vis j t < ih / 2)"
    and tr: "translateY (project ih vis j t) = real j * ih - t" for j t
    by (simp_all add: project_def Let_def item_distance_def)
  have far_scale: "scale (project ih vis i2 s2) = 7 / 10" if "3 * ih \<le> item_distance ih vis i2 s2"
  proof -
    from that assms have "1 \<le> item_distance ih vis i2 s2 / (ih * 3)"
      by (simp add: field_simps)
    then show ?thesis
      by (simp add: sc max_def)
  qed
  have far_opacity: "opacity (project ih vis i3 s3) = 3 / 10" if "5 / 2 * ih \<le> item_distance ih vis i3 s3"
  proof -
    from that assms have "1 \<le> item_distance ih vis i3 s3 / (ih * (5 / 2))"
      by (simp add: field_simps)
    then show ?thesis
      by (simp add: op max_def)
  qed
  have center: "scale (project ih vis i1 s1) = 1 \<and> opacity (project ih vis i1 s1) = 1
          \<and> selected (project ih vis i1 s1)" if "item_distance ih vis i1 s1 = 0"
    using assms by (simp add: sc op se that)
  have di: "item_distance ih vis i s = \<bar>translateY (project ih vis i s) - ih * (vis - 1) / 2\<bar>"
    by (simp add: tr item_distance_def)
  have up: "i4 < length (col_values (columns p ! ci)) \<longrightarrow>
          updateColumnTransform p ci ! i4
            = project itemHeight visibleItems i4 (scrollTop (columns p ! ci))"
    by (simp add: updateColumnTransform_def Let_def)
  have "translateY (project ih vis i s) = real i * ih - s
     \<and> scale (project ih vis i s) = max (7 / 10) (1 - item_distance ih vis i s / (ih * 3))
     \<and> opacity (project ih vis i s) = max (3 / 10) (1 - item_distance ih vis i s / (ih * (5 / 2)))
     \<and> selected (project ih vis i s) = (item_distance ih vis i s < ih / 2)"
    by (simp only: sc op se tr)
  with far_scale far_opacity center di up show ?thesis
    by blast
qed

text \<open>
  The statement above with the picker's own item height 40 and 5 visible items: item 2 at
  offset 0 is the centre, item 5 at offset 0 is three item heights away, item 5 at offset
  20 is two and a half.
\<close>

theorem project_formula_witness:
  "0 < itemHeight
   \<and> item_distance itemHeight visibleItems 2 0 = 0
   \<and> 3 * itemHeight \<le> item_distance itemHeight visibleItems 5 0
   \<and> 5 / 2 * itemHeight \<le> item_distance itemHeight visibleItems 5 20
   \<and> 14 < length (col_values (columns jan15 ! 1))
   \<and> scale (project itemHeight visibleItems 2 0) = 1
   \<and> opacity (project itemHeight visibleItems 2 0) = 1
   \<and> selected (project itemHeight visibleItems 2 0)
   \<and> scale (project itemHeight visibleItems 5 0) = 7 / 10
   \<and> opacity (project itemHeight visibleItems 5 20) = 3 / 10
   \<and> updateColumnTransform jan15 1 ! 14
        = project itemHeight visibleItems 14 (scrollTop (columns jan15 ! 1))"
proof -
  have h0: "0 < itemHeight" by (simp add: itemHeight_def)
  have h1: "item_distance itemHeight visibleItems 2 0 = 0"
    by (simp add: item_distance_def itemHeight_def visibleItems_def)
  have h2: "3 * itemHeight \<le> item_distance itemHeight visibleItems 5 0"
    by (simp add: item_distance_def itemHeight_def visibleItems_def)
  have h3: "5 / 2 * itemHeight \<le> item_distance itemHeight visibleItems 5 20"
    by (simp add: item_distance_def itemHeight_def visibleItems_def)
  have h4: "14 < length (col_values (columns jan15 ! 1))" by code_simp
  note inst = project_formula[OF h0, where vis = visibleItems and ?i1.0 = 2 and ?s1.0 = 0
      and ?i2.0 = 5 and ?s2.0 = 0 and ?i3.0 = 5 and ?s3.0 = 20 and ?i4.0 = 14 and p = jan15
      and ci = 1]
  from inst h0 h1 h2 h3 h4 show ?thesis by blast
qed

section \<open>The selected index after a stale animation\<close>

text \<open>
  Claim C8: for every column and every sequence of public operations, after a settle the
  selected index is a valid position of the column's values.

  An animation keeps the index it computed against the column as it was when the drag
  ended. On the picker showing 15 January 2023 the day column is flicked towards day 31
  (index 30); while that animation runs, \<^verbatim>\<open>setDate\<close> of 10 February 2023 shrinks the day
  column to 28 entries. Forty-seven frames later the animation settles and commits index 30
  to the column of 28 entries; the day read there is \<^verbatim>\<open>undefined\<close>, and \<^verbatim>\<open>onChange\<close> receives
  an invalid Date, which \<^verbatim>\<open>getDate\<close> returns from then on. The theorem gives the day column's
  selected index and length, \<^verbatim>\<open>getDate()\<close> and the \<^verbatim>\<open>onChange\<close> calls after the forty-seventh
  frame.
\<close>

theorem stale_animation_commits_out_of_range:
  "day_state (session (demo_options FDate (ymd 2023 0 15)) (flick_then_setDate @ replicate 47 (Frame (ymd 2023 5 5))))
     = Inr (30, 28, None, [None])"
proof -
  define P where "P = (date_picker 1 28 9 360 (Some (ymd 2023 1 10)) [])
           \<lparr>frames := [(0, stale_anim)], next_frame_id := 1,
            trackers := [new_tracker, \<lparr>startY = 0, startScrollTop = 560, momentumId = None, lastY = - 620,
                  lastTime = 100, velocity = 31 / 5\<rparr>, new_tracker]\<rparr>"
  define c' where "c' = (columns (date_picker 1 28 9 360 (Some (ymd 2023 1 10)) []) ! 1)\<lparr>scrollTop := 1200, selectedIndex := 30\<rparr>"
  have P_cols: "columns P = columns (date_picker 1 28 9 360 (Some (ymd 2023 1 10)) [])"
    and P_frames: "frames P = [(0, stale_anim)]"
    by (simp_all add: P_def)
  have col: "anim_col stale_anim < length (columns P)"
    by (simp add: P_cols stale_anim_def date_picker_def)
  have ac: "anim_col stale_anim = 1"
    by (simp add: stale_anim_def)
  have ss: "settle 47 stale_anim (columns P ! anim_col stale_anim) = Some (47, c')"
    unfolding ac P_cols c'_def by (rule stale_settles)
  have "run P (replicate 47 (Frame (ymd 2023 5 5))) =
     onDateChange (P\<lparr>frames := [], next_frame_id := next_frame_id P + (47 - 1),
                     columns := (columns P)[anim_col stale_anim := c']\<rparr>) (ymd 2023 5 5)"
    using ss P_frames col refl by (rule frames_follow_settle)
  moreover have "day_state (onDateChange (P\<lparr>frames := [], next_frame_id := next_frame_id P + (47 - 1),
                     columns := (columns P)[anim_col stale_anim := c']\<rparr>) (ymd 2023 5 5))
       = Inr (30, 28, None, [None])"
    unfolding P_def c'_def by code_simp
  moreover have "session (demo_options FDate (ymd 2023 0 15)) (flick_then_setDate @ replicate 47 (Frame (ymd 2023 5 5)))
      = run P (replicate 47 (Frame (ymd 2023 5 5)))"
    by (simp add: session_append after_setDate P_def)
  ultimately show ?thesis by simp
qed

section \<open>setDate followed by getDate\<close>

text \<open>
  Claim C9: for a Date whose year is in the year column (any Date in the time format),
  \<^verbatim>\<open>setDate(d)\<close> followed by \<^verbatim>\<open>getDate()\<close> yields \<open>d\<close>. The stored Date is \<open>d\<close> itself, so the
  two agree at every granularity, the time of day included in every format.
\<close>

theorem setDate_getDate:
  assumes "length (columns p) = column_count (fmt p)"
    and "fmt p \<noteq> FTime \<longrightarrow> 0 \<le> indexOf (col_values (columns p ! 2)) (Num (d_year d))"
  shows "\<exists>p'. setDate p d = Inr p' \<and> getDate p' = Some d"
proof (cases "fmt p = FTime")
  case True
  with assms(1) show ?thesis
    by (simp add: setDate_def Let_def updateColumns_time getDate_def column_count_def)
next
  case False
  define ys where "ys = col_values (columns p ! 2)"
  define c2 where "c2 = set_selected 2 (indexOf ys (Num (d_year d)))
     (set_selected 1 (d_date d - 1) (set_selected 0 (d_month d) (columns p)))"
  from False assms have found: "0 \<le> indexOf ys (Num (d_year d))" and len: "3 \<le> length (columns p)"
    by (auto simp: ys_def column_count_def split: format.splits)
  have year: "js_nth (col_values (c2 ! 2)) (selectedIndex (c2 ! 2)) = Num (d_year d)"
    using len found by (simp add: c2_def set_selected_nth ys_def indexOf_found)
  show ?thesis
  proof (cases "fmt p")
    case FDate
    let ?q = "scrollToSelected (p\<lparr>currentDate := Some d, columns := c2\<rparr>)"
    have "\<exists>p'. updateColumns ?q = Inr p'"
      using len year by (intro updateColumns_returns[where y = "d_year d"]) (simp_all add: scrollToSelected_nth c2_def)
    then obtain p' where p': "updateColumns ?q = Inr p'" by blast
    have "setDate p d = updateColumns ?q"
      using FDate len found by (simp add: setDate_def Let_def c2_def ys_def set_selected_nth)
    with p' updateColumns_currentDate[OF p'] show ?thesis
      by (simp add: getDate_def)
  next
    case FDateTime
    define c4 where "c4 = set_selected 4 (indexOf (col_values (columns p ! 4)) (Str (pad2 (d_minutes d))))
       (set_selected 3 (indexOf (col_values (columns p ! 3)) (Str (pad2 (d_hours d)))) c2)"
    let ?q = "scrollToSelected (p\<lparr>currentDate := Some d, columns := c4\<rparr>)"
    from FDateTime assms(1) have len5: "length (columns p) = 5" by (simp add: column_count_def)
    have "js_nth (col_values (c4 ! 2)) (selectedIndex (c4 ! 2)) = Num (d_year d)"
      using year by (simp add: c4_def set_selected_nth)
    then have "\<exists>p'. updateColumns ?q = Inr p'"
      using len5 by (intro updateColumns_returns[where y = "d_year d"]) (simp_all add: scrollToSelected_nth c4_def c2_def)
    then obtain p' where p': "updateColumns ?q = Inr p'" by blast
    have "setDate p d = updateColumns ?q"
      using FDateTime len5 found by (simp add: setDate_def Let_def c4_def c2_def ys_def set_selected_nth)
    with p' updateColumns_currentDate[OF p'] show ?thesis
      by (simp add: getDate_def)
  next
    case FTime
    with False show ?thesis by simp
  qed
qed

text \<open>
  The statement above on the date picker showing 15 January 2023, for 29 February 2024 at
  13:45:30.500.
\<close>

theorem setDate_getDate_witness:
  "length (columns jan15) = column_count (fmt jan15)
   \<and> 0 \<le> indexOf (col_values (columns jan15 ! 2)) (Num (d_year feb29_afternoon))
   \<and> (\<exists>p'. setDate jan15 feb29_afternoon = Inr p' \<and> getDate p' = Some feb29_afternoon)"
proof -
  have h1: "length (columns jan15) = column_count (fmt jan15)" by code_simp
  have h2: "0 \<le> indexOf (col_values (columns jan15 ! 2)) (Num (d_year feb29_afternoon))"
    by code_simp
  from setDate_getDate[of jan15 feb29_afternoon] h1 h2 show ?thesis by blast
qed

section \<open>setDate is silent\<close>

text \<open>
  Claim C10: \<^verbatim>\<open>setDate\<close> never invokes \<^verbatim>\<open>onChange\<close>. The only events after which the list of
  \<^verbatim>\<open>onChange\<close> calls has changed are a drag end, a pointer leave and an animation frame, and
  a run of the animation closure changes it only on its terminal step.
\<close>

theorem setDate_silent:
  "(setDate p d = Inr p' \<longrightarrow> fired p' = fired p)
   \<and> (step q e = Inr q' \<and> fired q' \<noteq> fired q \<longrightarrow>
        (\<exists>ci now. e = End ci now \<or> e = Leave ci now) \<or> (\<exists>now. e = Frame now))
   \<and> (animate r a now = Inr r' \<and> fired r' \<noteq> fired r \<longrightarrow>
        \<bar>anim_diff a (columns r ! anim_col a)\<bar> < 1 / 2)"
proof (intro conjI impI)
  assume "setDate p d = Inr p'"
  then show "fired p' = fired p" by (rule setDate_fired)
next
  assume "step q e = Inr q' \<and> fired q' \<noteq> fired q"
  then show "(\<exists>ci now. e = End ci now \<or> e = Leave ci now) \<or> (\<exists>now. e = Frame now)"
    using step_fired by blast
next
  assume a: "animate r a now = Inr r' \<and> fired r' \<noteq> fired r"
  show "\<bar>anim_diff a (columns r ! anim_col a)\<bar> < 1 / 2"
  proof (rule ccontr)
    assume "\<not> \<bar>anim_diff a (columns r ! anim_col a)\<bar> < 1 / 2"
    with animate_fired[of r a now r'] a show False by simp
  qed
qed

text \<open>
  The statement above on pickers showing 15 January 2023: \<^verbatim>\<open>setDate\<close> of 10 February 2023
  on a picker that has fired once before leaves that one call; a drag end on the month
  column and the terminal step to index 16 each add a call.
\<close>

theorem setDate_silent_witness:
  "setDate jan15_fired (ymd 2023 1 10)
      = Inr (date_picker 1 28 9 360 (Some (ymd 2023 1 10)) [Some (ymd 2023 0 15)])
   \<and> fired (date_picker 1 28 9 360 (Some (ymd 2023 1 10)) [Some (ymd 2023 0 15)])
      = fired jan15_fired
   \<and> step jan15 (End 0 (ymd 2023 5 5)) = Inr jan15_fired \<and> fired jan15_fired \<noteq> fired jan15
   \<and> animate near16 snap16 (ymd 2023 5 5) = Inr on17 \<and> fired on17 \<noteq> fired near16
   \<and> \<bar>anim_diff snap16 (columns near16 ! anim_col snap16)\<bar> < 1 / 2"
proof -
  have h1: "setDate jan15_fired (ymd 2023 1 10)
      = Inr (date_picker 1 28 9 360 (Some (ymd 2023 1 10)) [Some (ymd 2023 0 15)])"
    by code_simp
  have h2: "step jan15 (End 0 (ymd 2023 5 5)) = Inr jan15_fired \<and> fired jan15_fired \<noteq> fired jan15"
    by code_simp
  have h3: "animate near16 snap16 (ymd 2023 5 5) = Inr on17 \<and> fired on17 \<noteq> fired near16"
    by code_simp
  note inst = setDate_silent[where p = jan15_fired and d = "ymd 2023 1 10"
      and p' = "date_picker 1 28 9 360 (Some (ymd 2023 1 10)) [Some (ymd 2023 0 15)]"
      and q = jan15 and e = "End 0 (ymd 2023 5 5)" and q' = jan15_fired
      and r = near16 and a = snap16 and now = "ymd 2023 5 5" and r' = on17]
  from inst h1 h2 h3 show ?thesis by blast
qed

end
